theory Spec2Isabelle
  imports Main "HOL-Library.Char_ord" "HOL-Library.List_Lexorder"
    "HOL-Library.Product_Lexorder" "HOL-Library.Multiset"
begin

section \<open>Python values and exceptions\<close>

text \<open>
  Exceptions of the two modules are values of one datatype; a function that can raise
  returns \<open>pyerr + 'a\<close> with \<open>Inl\<close> for the exception.  \<open>LogError\<close> is
  \<^verbatim>\<open>logerror\<close> of cvsps.py, \<open>Abort\<close> is \<^verbatim>\<open>Abort\<close> of dateutil.py; the others
  are Python's built-in exceptions.
\<close>

datatype pyerr =
    LogError string
  | Abort string
  | NameError string
  | ValueError
  | OverflowError
  | AttributeError
  | KeyError
  | TypeError
  | IndexError
  | AssertionError string

text \<open>The dynamically typed argument of \<^verbatim>\<open>parsedate\<close>.\<close>

datatype pyval = PNone | PInt int | PStr string | PTuple "pyval list"

text \<open>Python truth value: \<^verbatim>\<open>not date\<close> holds for None, 0, the empty string and the empty tuple.\<close>

fun truthy :: "pyval \<Rightarrow> bool" where
  "truthy PNone = False"
| "truthy (PInt n) = (n \<noteq> 0)"
| "truthy (PStr s) = (s \<noteq> [])"
| "truthy (PTuple xs) = (xs \<noteq> [])"

text \<open>\<^verbatim>\<open>isinstance(date, tuple) and len(date) == 2\<close>\<close>

fun is_pair :: "pyval \<Rightarrow> bool" where
  "is_pair (PTuple xs) = (length xs = 2)"
| "is_pair _ = False"

section \<open>String helpers of the Python runtime\<close>

text \<open>
  Strings are lists of 8-bit characters: the log is decoded as latin-1, so every code
  point of the program's text is below 256.  \<open>is_space\<close> is \<^verbatim>\<open>str.isspace\<close> on
  those code points (used by \<^verbatim>\<open>str.strip()\<close> and by \<^verbatim>\<open>int()\<close>).
\<close>

definition is_space :: "char \<Rightarrow> bool" where
  "is_space c = (let n = (of_char c :: nat) in
     (9 \<le> n \<and> n \<le> 13) \<or> (28 \<le> n \<and> n \<le> 32) \<or> n = 133 \<or> n = 160)"

definition is_digit :: "char \<Rightarrow> bool" where
  "is_digit c = (let n = (of_char c :: nat) in 48 \<le> n \<and> n \<le> 57)"

definition digit_val :: "char \<Rightarrow> int" where
  "digit_val c = int (of_char c) - 48"

definition py_strip :: "string \<Rightarrow> string" where
  "py_strip s = rev (dropWhile is_space (rev (dropWhile is_space s)))"

text \<open>\<^verbatim>\<open>s.split(sep)\<close> for a one-character separator: empty pieces are kept.\<close>

fun py_split :: "char \<Rightarrow> string \<Rightarrow> string list" where
  "py_split sep [] = [[]]"
| "py_split sep (c # cs) =
     (if c = sep then [] # py_split sep cs
      else (case py_split sep cs of [] \<Rightarrow> [[c]] | w # ws \<Rightarrow> (c # w) # ws))"

text \<open>\<^verbatim>\<open>sep.join(pieces)\<close>\<close>

fun py_join :: "string \<Rightarrow> string list \<Rightarrow> string" where
  "py_join sep [] = []"
| "py_join sep [w] = w"
| "py_join sep (w # ws) = w @ sep @ py_join sep ws"

text \<open>
  \<^verbatim>\<open>int(s)\<close> in base ten: surrounding white space is dropped, one sign is allowed, and
  the digits may be grouped by single underscores.  \<open>None\<close> stands for ValueError.
\<close>

fun parse_digits :: "bool \<Rightarrow> int \<Rightarrow> string \<Rightarrow> int option" where
  "parse_digits prev acc [] = (if prev then Some acc else None)"
| "parse_digits prev acc (c # cs) =
     (if is_digit c then parse_digits True (acc * 10 + digit_val c) cs
      else if c = CHR ''_'' \<and> prev \<and> cs \<noteq> [] \<and> is_digit (hd cs) then parse_digits False acc cs
      else None)"

definition py_int :: "string \<Rightarrow> int option" where
  "py_int s =
     (case py_strip s of
        [] \<Rightarrow> None
      | c # cs \<Rightarrow>
          if c = CHR ''-'' then map_option uminus (parse_digits False 0 cs)
          else if c = CHR ''+'' then parse_digits False 0 cs
          else parse_digits False 0 (c # cs))"

section \<open>dateutil.py\<close>

definition defaultdateformats :: "string list" where
  "defaultdateformats =
    [''%Y-%m-%dT%H:%M:%S'', ''%Y-%m-%dT%H:%M'', ''%Y-%m-%dT%H%M%S'', ''%Y-%m-%dT%H%M'',
     ''%Y-%m-%d %H:%M:%S'', ''%Y-%m-%d %H:%M'', ''%Y-%m-%d %H%M%S'', ''%Y-%m-%d %H%M'',
     ''%Y-%m-%d %I:%M:%S%p'', ''%Y-%m-%d %H:%M'', ''%Y-%m-%d %I:%M%p'', ''%Y-%m-%d'',
     ''%m-%d'', ''%m/%d'', ''%m/%d/%y'', ''%m/%d/%Y'', ''%a %b %d %H:%M:%S %Y'',
     ''%a %b %d %I:%M:%S%p %Y'', ''%a, %d %b %Y %H:%M:%S'', ''%b %d %H:%M:%S %Y'',
     ''%b %d %I:%M:%S%p %Y'', ''%b %d %H:%M:%S'', ''%b %d %I:%M:%S%p'', ''%b %d %H:%M'',
     ''%b %d %I:%M%p'', ''%b %d %Y'', ''%b %d'', ''%H:%M:%S'', ''%I:%M:%S%p'', ''%H:%M'',
     ''%I:%M%p'']"

text \<open>
  \<^verbatim>\<open>when, offset = map(int, date.split(' '))\<close>: the unpacking succeeds when there are
  exactly two pieces and \<^verbatim>\<open>int\<close> accepts both; every other case is a ValueError
  (\<open>None\<close> here), which sends \<^verbatim>\<open>parsedate\<close> to the format loop.
\<close>

definition unixtime_offset :: "string \<Rightarrow> (int \<times> int) option" where
  "unixtime_offset date =
     (case map py_int (py_split CHR '' '' date) of
        [Some when, Some offset] \<Rightarrow> Some (when, offset)
      | _ \<Rightarrow> None)"

text \<open>
  The loop \<^verbatim>\<open>for format in formats: try: ... strdate(date, format, defaults)\<close>.
  \<^verbatim>\<open>strdate\<close> rests on \<^verbatim>\<open>time.strptime\<close>, \<^verbatim>\<open>calendar.timegm\<close>, \<^verbatim>\<open>time.mktime\<close> and the
  clock of the machine, so it is a parameter here (with the \<^verbatim>\<open>defaults\<close> table, built
  from the current time and \<^verbatim>\<open>bias\<close>, inside it).  ValueError and OverflowError move on to
  the next format, any other exception leaves the function, a result ends the loop.

  The \<^verbatim>\<open>else\<close> branch of the loop is \<^verbatim>\<open>raise Abort(_('invalid date: %r') % date)\<close>.
  dateutil.py neither defines nor imports the name \<^verbatim>\<open>_\<close> (cvsps.py defines its own, local
  to that module), so evaluating the argument of \<^verbatim>\<open>Abort\<close> raises NameError before the
  Abort object exists.
\<close>

fun try_formats ::
  "(string \<Rightarrow> string \<Rightarrow> pyerr + int \<times> int) \<Rightarrow> string \<Rightarrow> string list \<Rightarrow> pyerr + int \<times> int" where
  "try_formats strdate date [] = Inl (NameError ''_'')"
| "try_formats strdate date (format # formats) =
     (case strdate date format of
        Inr r \<Rightarrow> Inr r
      | Inl ValueError \<Rightarrow> try_formats strdate date formats
      | Inl OverflowError \<Rightarrow> try_formats strdate date formats
      | Inl e \<Rightarrow> Inl e)"

text \<open>
  The range checks at the end of \<^verbatim>\<open>parsedate\<close>.  Both \<^verbatim>\<open>raise Abort(_(...) % ...)\<close>
  statements evaluate the undefined name \<^verbatim>\<open>_\<close> first, as above.
\<close>

definition validate :: "int \<Rightarrow> int \<Rightarrow> pyerr + pyval" where
  "validate when offset =
     (if when < - 2147483648 \<or> when > 2147483647 then Inl (NameError ''_'')
      else if offset < - 50400 \<or> offset > 43200 then Inl (NameError ''_'')
      else Inr (PTuple [PInt when, PInt offset]))"

definition parsedate ::
  "(string \<Rightarrow> string \<Rightarrow> pyerr + int \<times> int) \<Rightarrow> pyval \<Rightarrow> string list \<Rightarrow> pyerr + pyval" where
  "parsedate strdate date formats =
     (if \<not> truthy date then Inr (PTuple [PInt 0, PInt 0])
      else if is_pair date then Inr date
      else (case date of
          PStr s \<Rightarrow>
            (let formats' = (if formats = [] then defaultdateformats else formats);
                 d = py_strip s
             in case unixtime_offset d of
                  Some (when, offset) \<Rightarrow> validate when offset
                | None \<Rightarrow>
                    (case try_formats strdate d formats' of
                       Inl e \<Rightarrow> Inl e
                     | Inr (when, offset) \<Rightarrow> validate when offset))
        | _ \<Rightarrow> Inl AttributeError))"

section \<open>cvsps.py: the log parser\<close>

subsection \<open>Regular expressions of state 0\<close>

text \<open>
  Each pattern is used with \<^verbatim>\<open>match\<close>, which anchors it at the start of the line.
  \<^verbatim>\<open>.\<close> matches every character but the newline, and \<^verbatim>\<open>$\<close> matches at the end of the
  string or just before a newline that ends it.  A matcher returns the captured group.
\<close>

abbreviation newline :: char where
  "newline \<equiv> CHR 0x0A"

definition strip_prefix :: "string \<Rightarrow> string \<Rightarrow> string option" where
  "strip_prefix p s = (if take (length p) s = p then Some (drop (length p) s) else None)"

text \<open>\<^verbatim>\<open>(.+)$\<close> on the rest of a line: the longest run without a newline, not empty, at the end.\<close>

definition dot_plus_eol :: "string \<Rightarrow> string option" where
  "dot_plus_eol s =
     (let body = takeWhile (\<lambda>c. c \<noteq> newline) s;
          rest = dropWhile (\<lambda>c. c \<noteq> newline) s
      in if body \<noteq> [] \<and> (rest = [] \<or> rest = [newline]) then Some body else None)"

text \<open>\<^verbatim>\<open>re_00 = re.compile(r'RCS file: (.+)$')\<close>\<close>

definition re_00 :: "string \<Rightarrow> string option" where
  "re_00 line = (case strip_prefix ''RCS file: '' line of None \<Rightarrow> None | Some r \<Rightarrow> dot_plus_eol r)"

text \<open>\<^verbatim>\<open>re_01 = re.compile(r'cvs \[r?log aborted\]: (.+)$')\<close>\<close>

definition re_01 :: "string \<Rightarrow> string option" where
  "re_01 line =
     (case strip_prefix ''cvs ['' line of
        None \<Rightarrow> None
      | Some r \<Rightarrow>
          (case strip_prefix ''rlog aborted]: '' r of
             Some b \<Rightarrow> dot_plus_eol b
           | None \<Rightarrow>
               (case strip_prefix ''log aborted]: '' r of
                  Some b \<Rightarrow> dot_plus_eol b
                | None \<Rightarrow> None)))"

text \<open>
  \<^verbatim>\<open>re_02 = re.compile(r'cvs (r?log|server): (.+)\n$')\<close>: after the message the pattern
  asks for a newline character, and then for the end of the string (or one more newline
  that ends it).  The result is group 2.
\<close>

definition dot_plus_nl_eol :: "string \<Rightarrow> string option" where
  "dot_plus_nl_eol s =
     (let body = takeWhile (\<lambda>c. c \<noteq> newline) s;
          rest = dropWhile (\<lambda>c. c \<noteq> newline) s
      in if body \<noteq> [] \<and> (rest = [newline] \<or> rest = [newline, newline]) then Some body else None)"

definition re_02 :: "string \<Rightarrow> string option" where
  "re_02 line =
     (case strip_prefix ''cvs '' line of
        None \<Rightarrow> None
      | Some r \<Rightarrow>
          (case strip_prefix ''rlog: '' r of
             Some b \<Rightarrow> dot_plus_nl_eol b
           | None \<Rightarrow>
               (case strip_prefix ''log: '' r of
                  Some b \<Rightarrow> dot_plus_nl_eol b
                | None \<Rightarrow>
                    (case strip_prefix ''server: '' r of
                       Some b \<Rightarrow> dot_plus_nl_eol b
                     | None \<Rightarrow> None))))"

text \<open>
  \<^verbatim>\<open>re_03 = re.compile(r"(Cannot access.+CVSROOT)|(can't create temporary directory.+)$")\<close>;
  only whether it matches is used.
\<close>

fun has_infix :: "string \<Rightarrow> string \<Rightarrow> bool" where
  "has_infix p [] = (p = [])"
| "has_infix p (c # cs) = (take (length p) (c # cs) = p \<or> has_infix p cs)"

definition re_03 :: "string \<Rightarrow> bool" where
  "re_03 line =
     ((case strip_prefix ''Cannot access'' line of
         None \<Rightarrow> False
       | Some r \<Rightarrow>
           (let run = takeWhile (\<lambda>c. c \<noteq> newline) r
            in run \<noteq> [] \<and> has_infix ''CVSROOT'' (tl run)))
      \<or> (case strip_prefix ''can't create temporary directory'' line of
            None \<Rightarrow> False
          | Some r \<Rightarrow> dot_plus_eol r \<noteq> None))"

subsection \<open>Reading a line, and state 0 of the parser\<close>

text \<open>
  \<^verbatim>\<open>readline()\<close> returns the text up to and including the next newline, so a line of the
  stream holds a newline at most as its last character.  The loop removes it:
  \<^verbatim>\<open>if line.endswith('\n'): line = line[:-1]\<close>.
\<close>

definition from_readline :: "string \<Rightarrow> bool" where
  "from_readline raw = (raw \<noteq> [] \<and> newline \<notin> set (butlast raw))"

definition strip_newline :: "string \<Rightarrow> string" where
  "strip_newline line = (if line \<noteq> [] \<and> last line = newline then butlast line else line)"

text \<open>
  What state 0 does with one (stripped) line: \<open>Inr (Some rcs)\<close> when the line is an
  \<^verbatim>\<open>RCS file:\<close> header (the parser then goes on to state 1 or 2, or stays in state 0 when
  the path does not start with the prefix); \<open>Inl (LogError msg)\<close> when
  \<^verbatim>\<open>raise logerror(...)\<close> is reached; \<open>Inr None\<close> when no branch is taken and the line is
  dropped, the state staying 0.
\<close>

definition state0 :: "string \<Rightarrow> pyerr + string option" where
  "state0 line =
     (case re_00 line of
        Some rcs \<Rightarrow> Inr (Some rcs)
      | None \<Rightarrow>
          (case re_01 line of
             Some msg \<Rightarrow> Inl (LogError msg)
           | None \<Rightarrow>
               (case re_02 line of
                  Some msg \<Rightarrow> Inl (LogError msg)
                | None \<Rightarrow> if re_03 line then Inl (LogError line) else Inr None)))"

subsection \<open>State 6: the mergepoint field\<close>

text \<open>
  \<^verbatim>\<open>branchmap\<close> is a dict from branch names to revision strings; Python keeps the keys
  in insertion order, so it is an association list with distinct keys.  The code is
  \<^verbatim>\<open>
  myrev = match.group(10).split('.')
  if len(myrev) == 2: e.mergepoint = 'HEAD'
  else:
      myrev = '.'.join(myrev[:-2] + ['0', myrev[-2]])
      branches = [b for b in branchmap if branchmap[b] == myrev]
      assert len(branches) == 1, ('unknown branch: %s' % e.mergepoint)
      e.mergepoint = branches[0]
  \<close>
  \<^verbatim>\<open>myrev[-2]\<close> raises IndexError on a list of one piece; \<^verbatim>\<open>e.mergepoint\<close> is still None
  when the assertion message is built.
\<close>

definition magic_branch_revision :: "string list \<Rightarrow> string" where
  "magic_branch_revision myrev =
     py_join ''.'' (take (length myrev - 2) myrev @ [''0'', myrev ! (length myrev - 2)])"

definition branches_with_revision :: "(string \<times> string) list \<Rightarrow> string \<Rightarrow> string list" where
  "branches_with_revision branchmap myrev =
     filter (\<lambda>b. map_of branchmap b = Some myrev) (map fst branchmap)"

definition mergepoint_of :: "(string \<times> string) list \<Rightarrow> string \<Rightarrow> pyerr + string" where
  "mergepoint_of branchmap field =
     (let myrev = py_split CHR ''.'' field
      in if length myrev = 2 then Inr ''HEAD''
         else if length myrev < 2 then Inl IndexError
         else (case branches_with_revision branchmap (magic_branch_revision myrev) of
                 [b] \<Rightarrow> Inr b
               | _ \<Rightarrow> Inl (AssertionError ''unknown branch: None'')))"

text \<open>
  The same step as the specification words it: for every length other than two, look up
  the revision string \<^verbatim>\<open>r[:-2] + [0, last component of r]\<close>.
\<close>

definition spec_branch_revision :: "string list \<Rightarrow> string" where
  "spec_branch_revision myrev =
     py_join ''.'' (take (length myrev - 2) myrev @ [''0'', last myrev])"

definition spec_mergepoint_of :: "(string \<times> string) list \<Rightarrow> string \<Rightarrow> pyerr + string" where
  "spec_mergepoint_of branchmap field =
     (let myrev = py_split CHR ''.'' field
      in if length myrev = 2 then Inr ''HEAD''
         else (case branches_with_revision branchmap (spec_branch_revision myrev) of
                 [b] \<Rightarrow> Inr b
               | _ \<Rightarrow> Inl (AssertionError ''unknown branch: None'')))"

subsection \<open>Log entries\<close>

text \<open>
  The attributes of \<^verbatim>\<open>logentry\<close> that the parent pass of \<^verbatim>\<open>createlog\<close> and
  \<^verbatim>\<open>createchangeset\<close> read or write (\<^verbatim>\<open>branches\<close>, \<^verbatim>\<open>dead\<close> and \<^verbatim>\<open>lines\<close> are read by
  neither).  A revision is a tuple of integers, a date a pair \<open>(unixtime, offset)\<close>; the
  attributes that may be None are options.
\<close>

record logentry =
  e_rcs :: string
  e_file :: string
  e_revision :: "int list"
  e_parent :: "int list option"
  e_author :: string
  e_branch :: "string option"
  e_comment :: string
  e_commitid :: "string option"
  e_date :: "int \<times> int"
  e_branchpoints :: "string set"
  e_mergepoint :: "string option"
  e_tags :: "string list"
  e_synthetic :: bool

subsection \<open>Sorting\<close>

text \<open>
  \<^verbatim>\<open>list.sort\<close> and \<^verbatim>\<open>sorted\<close> are stable and compare keys with \<^verbatim>\<open><\<close> only.  The model
  is the stable insertion sort over that comparison: an element goes behind every
  element it is not smaller than.  When \<^verbatim>\<open><\<close> is a strict weak order on the keys, every
  stable sort returns this list; when it is not (keys that end in sets, which compare by
  inclusion, or a \<^verbatim>\<open>cscmp\<close> that runs in a circle), Python's sort may return another
  permutation of the list.  The general theorems below use of the sorts only that they
  permute their input.
\<close>

fun insort_lt :: "('a \<Rightarrow> 'a \<Rightarrow> bool) \<Rightarrow> 'a \<Rightarrow> 'a list \<Rightarrow> 'a list" where
  "insort_lt lt x [] = [x]"
| "insort_lt lt x (y # ys) = (if lt x y then x # y # ys else y # insort_lt lt x ys)"

definition py_sort :: "('a \<Rightarrow> 'a \<Rightarrow> bool) \<Rightarrow> 'a list \<Rightarrow> 'a list" where
  "py_sort lt xs = foldl (\<lambda>acc x. insort_lt lt x acc) [] xs"

subsection \<open>The parent pass of createlog\<close>

text \<open>
  \<^verbatim>\<open>
  log.sort(key=lambda x: (x.rcs, x.revision))
  versions = {}
  for e in sorted(oldlog, key=lambda x: (x.rcs, x.revision)):
      if e.file in rcsmap: e.rcs = rcsmap[e.file]
      branch = e.revision[:-1]
      versions[(e.rcs, branch)] = e.revision
  for e in log:
      branch = e.revision[:-1]
      p = versions.get((e.rcs, branch), None)
      if p is None: p = e.revision[:-2]
      e.parent = p
      versions[(e.rcs, branch)] = e.revision
  \<close>
  Tuples and strings compare lexicographically; \<^verbatim>\<open>t[:-1]\<close> is \<open>butlast t\<close> and
  \<^verbatim>\<open>t[:-2]\<close> is \<open>butlast (butlast t)\<close>, both empty on a tuple that is too short.
\<close>

definition rcs_revision_lt :: "logentry \<Rightarrow> logentry \<Rightarrow> bool" where
  "rcs_revision_lt x y = ((e_rcs x, e_revision x) < (e_rcs y, e_revision y))"

definition remap_rcs :: "(string \<rightharpoonup> string) \<Rightarrow> logentry \<Rightarrow> logentry" where
  "remap_rcs rcsmap e = (case rcsmap (e_file e) of None \<Rightarrow> e | Some r \<Rightarrow> e\<lparr>e_rcs := r\<rparr>)"

type_synonym versions = "string \<times> int list \<rightharpoonup> int list"

fun old_versions :: "(string \<rightharpoonup> string) \<Rightarrow> logentry list \<Rightarrow> versions \<Rightarrow> versions" where
  "old_versions rcsmap [] versions = versions"
| "old_versions rcsmap (e # es) versions =
     (let e' = remap_rcs rcsmap e
      in old_versions rcsmap es (versions((e_rcs e', butlast (e_revision e')) \<mapsto> e_revision e')))"

fun set_parents :: "logentry list \<Rightarrow> versions \<Rightarrow> logentry list" where
  "set_parents [] versions = []"
| "set_parents (e # es) versions =
     (let branch = butlast (e_revision e);
          p = (case versions (e_rcs e, branch) of
                 None \<Rightarrow> butlast (butlast (e_revision e))
               | Some p \<Rightarrow> p)
      in e\<lparr>e_parent := Some p\<rparr> # set_parents es (versions((e_rcs e, branch) \<mapsto> e_revision e)))"

definition find_parents :: "(string \<rightharpoonup> string) \<Rightarrow> logentry list \<Rightarrow> logentry list \<Rightarrow> logentry list" where
  "find_parents rcsmap oldlog log =
     set_parents (py_sort rcs_revision_lt log)
       (old_versions rcsmap (py_sort rcs_revision_lt oldlog) Map.empty)"

text \<open>
  The parent as the specification words it, from the entries recorded before this one
  (the old log, then the earlier entries of the sorted new log): the revision of the
  last of them with the same rcs file and the same prefix \<^verbatim>\<open>revision[:-1]\<close>, and the
  branch root \<^verbatim>\<open>revision[:-2]\<close> when there is none.
\<close>

definition same_line :: "logentry \<Rightarrow> logentry \<Rightarrow> bool" where
  "same_line e e' = (e_rcs e' = e_rcs e \<and> butlast (e_revision e') = butlast (e_revision e))"

definition spec_parent :: "logentry list \<Rightarrow> logentry \<Rightarrow> int list" where
  "spec_parent earlier e =
     (case find (same_line e) (rev earlier) of
        None \<Rightarrow> butlast (butlast (e_revision e))
      | Some e' \<Rightarrow> e_revision e')"

text \<open>
  "The very first trunk revision of a file", as the specification words it: a revision
  of two components with no earlier trunk revision of the same rcs file.
\<close>

definition spec_first_trunk_revision :: "logentry list \<Rightarrow> logentry \<Rightarrow> bool" where
  "spec_first_trunk_revision earlier e =
     (length (e_revision e) = 2
      \<and> \<not> (\<exists>e' \<in> set earlier. e_rcs e' = e_rcs e \<and> length (e_revision e') = 2))"

text \<open>
  The invariant of the two loops over \<open>versions\<close>: after the entries \<open>earlier\<close> have
  been recorded, the dict maps the key of an entry to the revision of the last recorded
  entry with that key.
\<close>

definition recorded :: "logentry list \<Rightarrow> versions \<Rightarrow> bool" where
  "recorded earlier versions =
     (\<forall>e. versions (e_rcs e, butlast (e_revision e)) =
        map_option e_revision (find (same_line e) (rev earlier)))"

text \<open>
  State 5 creates an entry with \<^verbatim>\<open>parent=None, commitid=None, mergepoint=None,
  branchpoints=set()\<close>; the examples below start from it.
\<close>

definition scaffold :: "string \<Rightarrow> string \<Rightarrow> int list \<Rightarrow> logentry" where
  "scaffold rcs file revision =
     \<lparr>e_rcs = rcs, e_file = file, e_revision = revision, e_parent = None, e_author = [],
      e_branch = None, e_comment = [], e_commitid = None, e_date = (0, 0),
      e_branchpoints = {}, e_mergepoint = None, e_tags = [], e_synthetic = False\<rparr>"

text \<open>One file with the revisions 1.2, 1.1 and 1.1.2.1, in the order of the rlog output.\<close>

definition log_a :: "logentry list" where
  "log_a = [scaffold ''a,v'' ''a'' [1, 2], scaffold ''a,v'' ''a'' [1, 1],
            scaffold ''a,v'' ''a'' [1, 1, 2, 1]]"

text \<open>One file whose trunk goes from 1.1 to 2.1.\<close>

definition log_major :: "logentry list" where
  "log_major = [scaffold ''a,v'' ''a'' [1, 1], scaffold ''a,v'' ''a'' [2, 1]]"

section \<open>cvsps.py: changesets\<close>

subsection \<open>The class changeset\<close>

text \<open>
  Changesets are objects that refer to each other (\<^verbatim>\<open>parents\<close>) and that are changed
  in place after others refer to them (the final numbering sets \<^verbatim>\<open>id\<close>), so they live in
  a store: a list of objects, a reference being the position of the object in the
  store.  \<open>c_parents\<close> is a list of references.  \<open>c_files\<close> and \<open>c_versions\<close> are
  \<^verbatim>\<open>_files\<close> and \<^verbatim>\<open>_versions\<close>.  \<open>c_branchpoints\<close> is \<open>None\<close> for a merge changeset,
  which \<^verbatim>\<open>from_merge\<close> builds with \<^verbatim>\<open>branchpoints=None\<close>.
\<close>

record changeset =
  c_id :: "nat option"
  c_entries :: "logentry list"
  c_parents :: "nat list"
  c_tags :: "string list"
  c_synthetic :: bool
  c_files :: "string set"
  c_versions :: "(string \<times> int list) set"
  c_author :: string
  c_branch :: "string option"
  c_comment :: string
  c_date :: "int \<times> int"
  c_commitid :: "string option"
  c_branchpoints :: "string set option"
  c_mergepoint :: "string option"

text \<open>\<^verbatim>\<open>changeset.__init__\<close>\<close>

definition new_changeset ::
  "string \<Rightarrow> string option \<Rightarrow> string \<Rightarrow> int \<times> int \<Rightarrow> string option \<Rightarrow> string set option
   \<Rightarrow> string option \<Rightarrow> changeset" where
  "new_changeset author branch comment date commitid branchpoints mergepoint =
     \<lparr>c_id = None, c_entries = [], c_parents = [], c_tags = [], c_synthetic = False,
      c_files = {}, c_versions = {}, c_author = author, c_branch = branch,
      c_comment = comment, c_date = date, c_commitid = commitid,
      c_branchpoints = branchpoints, c_mergepoint = mergepoint\<rparr>"

text \<open>
  \<^verbatim>\<open>changeset._add\<close>: \<^verbatim>\<open>self.synthetic = not self.entries and entry.synthetic\<close>, then
  the entry is appended, the date becomes the date of the entry, and the file and the
  version are recorded.
\<close>

definition cs_add :: "changeset \<Rightarrow> logentry \<Rightarrow> changeset" where
  "cs_add self entry =
     self\<lparr>c_synthetic := (c_entries self = [] \<and> e_synthetic entry),
          c_entries := c_entries self @ [entry],
          c_date := e_date entry,
          c_files := insert (e_file entry) (c_files self),
          c_versions := insert (e_rcs entry, e_revision entry) (c_versions self)\<rparr>"

definition from_logentry :: "logentry \<Rightarrow> changeset" where
  "from_logentry entry =
     cs_add (new_changeset (e_author entry) (e_branch entry) (e_comment entry) (e_date entry)
               (e_commitid entry) (Some (e_branchpoints entry)) (e_mergepoint entry)) entry"

text \<open>\<^verbatim>\<open>'%s' % x\<close> for a branch attribute: the name, or the text \<^verbatim>\<open>None\<close>.\<close>

definition percent_s :: "string option \<Rightarrow> string" where
  "percent_s x = (case x of None \<Rightarrow> ''None'' | Some s \<Rightarrow> s)"

text \<open>
  \<^verbatim>\<open>changeset.from_merge(from_cs, to_cs)\<close>; the two objects are given with their
  references, which become the parents.
\<close>

definition from_merge :: "nat \<Rightarrow> changeset \<Rightarrow> nat \<Rightarrow> changeset \<Rightarrow> changeset" where
  "from_merge from_ref from_cs to_ref to_cs =
     (new_changeset (c_author from_cs) (c_branch to_cs)
        (''convert-repo: CVS merge from branch '' @ percent_s (c_branch from_cs))
        (c_date from_cs) None None None)
     \<lparr>c_parents := [from_ref, to_ref]\<rparr>"

definition date_sum :: "int \<times> int \<Rightarrow> int" where
  "date_sum d = fst d + snd d"

text \<open>\<^verbatim>\<open>changeset._can_cover\<close>\<close>

definition can_cover :: "changeset \<Rightarrow> logentry \<Rightarrow> int \<Rightarrow> bool" where
  "can_cover self entry fuzz =
     (if Some (e_branchpoints entry) \<noteq> c_branchpoints self then False
      else if c_commitid self \<noteq> None then e_commitid entry = c_commitid self
      else (e_commitid entry = None
            \<and> e_author entry = c_author self
            \<and> e_branch entry = c_branch self
            \<and> e_comment entry = c_comment self
            \<and> e_file entry \<notin> c_files self
            \<and> date_sum (c_date self) \<le> date_sum (e_date entry)
            \<and> date_sum (e_date entry) < date_sum (c_date self) + fuzz))"

text \<open>\<^verbatim>\<open>changeset.add_entry\<close>: \<open>None\<close> is the result False, \<open>Some\<close> the changed object.\<close>

definition add_entry :: "changeset \<Rightarrow> logentry \<Rightarrow> int \<Rightarrow> changeset option" where
  "add_entry self entry fuzz =
     (if \<not> can_cover self entry fuzz then None else Some (cs_add self entry))"

text \<open>\<^verbatim>\<open>changeset.is_child\<close>; an entry whose parent is None is in no set of versions.\<close>

definition is_child :: "changeset \<Rightarrow> changeset \<Rightarrow> bool" where
  "is_child self other =
     (\<exists>entry \<in> set (c_entries self).
        case e_parent entry of None \<Rightarrow> False | Some p \<Rightarrow> (e_rcs entry, p) \<in> c_versions other)"

subsection \<open>createchangeset: grouping\<close>

text \<open>
  \<^verbatim>\<open>mindate\<close>: for every commitid that is not empty, the smallest date (as a tuple) of
  its entries.
\<close>

fun mindate_of :: "logentry list \<Rightarrow> (string \<rightharpoonup> int \<times> int) \<Rightarrow> (string \<rightharpoonup> int \<times> int)" where
  "mindate_of [] mindate = mindate"
| "mindate_of (e # es) mindate =
     (case e_commitid e of
        None \<Rightarrow> mindate_of es mindate
      | Some cid \<Rightarrow>
          if cid = [] then mindate_of es mindate
          else (case mindate cid of
                  None \<Rightarrow> mindate_of es (mindate(cid \<mapsto> e_date e))
                | Some d \<Rightarrow> mindate_of es (mindate(cid \<mapsto> min (e_date e) d))))"

text \<open>
  The sort key of the log,
  \<^verbatim>\<open>(mindate.get(x.commitid, (-1, 0)), x.commitid or '', x.comment, x.author,
    x.branch or '', x.date, x.branchpoints)\<close>.
  Tuples compare lexicographically; the last component is a set, and \<^verbatim>\<open><\<close> on sets is
  the proper subset.
\<close>

definition log_key ::
  "(string \<rightharpoonup> int \<times> int) \<Rightarrow> logentry
   \<Rightarrow> (int \<times> int) \<times> string \<times> string \<times> string \<times> string \<times> (int \<times> int)" where
  "log_key mindate x =
     ((case e_commitid x of
         None \<Rightarrow> (- 1, 0)
       | Some cid \<Rightarrow> (case mindate cid of None \<Rightarrow> (- 1, 0) | Some d \<Rightarrow> d)),
      (case e_commitid x of None \<Rightarrow> [] | Some cid \<Rightarrow> cid),
      e_comment x,
      e_author x,
      (case e_branch x of None \<Rightarrow> [] | Some b \<Rightarrow> b),
      e_date x)"

definition log_lt :: "(string \<rightharpoonup> int \<times> int) \<Rightarrow> logentry \<Rightarrow> logentry \<Rightarrow> bool" where
  "log_lt mindate x y =
     (log_key mindate x < log_key mindate y
      \<or> (log_key mindate x = log_key mindate y \<and> e_branchpoints x \<subset> e_branchpoints y))"

text \<open>
  The grouping loop.  \<^verbatim>\<open>c\<close>, the current changeset, is the last element of
  \<^verbatim>\<open>changesets\<close> (and None while the list is empty):
  \<^verbatim>\<open>
  for i, e in enumerate(log):
      if not (c and c.add_entry(e, fuzz)):
          c = changeset.from_logentry(e)
          changesets.append(c)
  \<close>
\<close>

fun grouping :: "int \<Rightarrow> logentry list \<Rightarrow> changeset list \<Rightarrow> changeset list" where
  "grouping fuzz [] changesets = changesets"
| "grouping fuzz (e # es) changesets =
     (if changesets = [] then grouping fuzz es [from_logentry e]
      else (case add_entry (last changesets) e fuzz of
              Some c \<Rightarrow> grouping fuzz es (butlast changesets @ [c])
            | None \<Rightarrow> grouping fuzz es (changesets @ [from_logentry e])))"

subsection \<open>createchangeset: the two sorts\<close>

text \<open>\<^verbatim>\<open>os.path.split\<close> (posixpath): the head loses its trailing slashes unless it is all slashes.\<close>

definition os_path_split :: "string \<Rightarrow> string \<times> string" where
  "os_path_split p =
     (let tail = rev (takeWhile (\<lambda>c. c \<noteq> CHR ''/'') (rev p));
          head = take (length p - length tail) p
      in (if head \<noteq> [] \<and> \<not> (\<forall>c \<in> set head. c = CHR ''/'')
          then rev (dropWhile (\<lambda>c. c = CHR ''/'') (rev head)) else head,
          tail))"

text \<open>\<^verbatim>\<open>c.entries.sort(key=lambda x: tuple(enumerate(os.path.split(x.file))))\<close>\<close>

definition file_lt :: "logentry \<Rightarrow> logentry \<Rightarrow> bool" where
  "file_lt x y = (os_path_split (e_file x) < os_path_split (e_file y))"

definition sort_entries :: "changeset \<Rightarrow> changeset" where
  "sort_entries c = c\<lparr>c_entries := py_sort file_lt (c_entries c)\<rparr>"

text \<open>
  \<^verbatim>\<open>cscmp\<close>; \<^verbatim>\<open>c(x, y)\<close> is \<^verbatim>\<open>(x > y) - (x < y)\<close>.  The set \<^verbatim>\<open>odd\<close> only feeds the
  \<^verbatim>\<open>ui.warn\<close> calls at the end of \<^verbatim>\<open>createchangeset\<close> and is left out with them (they are
  taken to print and return).  The length of \<^verbatim>\<open>branchpoints\<close> is taken of a set: every changeset
  that is compared was made from a log entry.
\<close>

definition branchpoints_set :: "changeset \<Rightarrow> string set" where
  "branchpoints_set c = (case c_branchpoints c of None \<Rightarrow> {} | Some bps \<Rightarrow> bps)"

definition cmp3 :: "'a::linorder \<Rightarrow> 'a \<Rightarrow> int" where
  "cmp3 x y = (if x > y then 1 else 0) - (if x < y then 1 else 0)"

definition cscmp :: "changeset \<Rightarrow> changeset \<Rightarrow> int" where
  "cscmp l r =
     (let d = date_sum (c_date l) - date_sum (c_date r)
      in if d \<noteq> 0 then d
         else
           (let d1 = (if is_child l r then 1 else d);
                d2 = (if is_child r l then - 1 else d1);
                d3 = (if d2 = 0 then cmp3 (length (c_entries l)) (length (c_entries r)) else d2);
                d4 = (if d3 = 0
                      then cmp3 (map e_file (c_entries l)) (map e_file (c_entries r)) else d3);
                d5 = (if d4 = 0
                      then cmp3 (card (branchpoints_set l)) (card (branchpoints_set r))
                      else d4)
            in d5))"

text \<open>\<^verbatim>\<open>changesets.sort(key=functools.cmp_to_key(cscmp))\<close>: a key is smaller when \<^verbatim>\<open>cscmp\<close> is negative.\<close>

definition cs_lt :: "changeset \<Rightarrow> changeset \<Rightarrow> bool" where
  "cs_lt l r = (cscmp l r < 0)"

subsection \<open>createchangeset: tags\<close>

text \<open>
  \<^verbatim>\<open>globaltags[tag] = c\<close> remembers the latest changeset with the tag; the objects are
  told apart by their position in the list.  Then
  \<^verbatim>\<open>c.tags = sorted(tag for tag in tags if globaltags[tag] is c)\<close>.
\<close>

fun collect_globaltags :: "nat \<Rightarrow> changeset list \<Rightarrow> (string \<rightharpoonup> nat) \<Rightarrow> (string \<rightharpoonup> nat)" where
  "collect_globaltags i [] globaltags = globaltags"
| "collect_globaltags i (c # cs) globaltags =
     collect_globaltags (i + 1) cs
       (foldl (\<lambda>g tag. g(tag \<mapsto> i)) globaltags (concat (map e_tags (c_entries c))))"

fun assign_tags :: "(string \<rightharpoonup> nat) \<Rightarrow> nat \<Rightarrow> changeset list \<Rightarrow> changeset list" where
  "assign_tags globaltags i [] = []"
| "assign_tags globaltags i (c # cs) =
     c\<lparr>c_tags := sort (remdups (filter (\<lambda>tag. globaltags tag = Some i)
                                     (concat (map e_tags (c_entries c)))))\<rparr>
     # assign_tags globaltags (i + 1) cs"

definition collect_tags :: "changeset list \<Rightarrow> changeset list" where
  "collect_tags changesets =
     assign_tags (collect_globaltags 0 changesets Map.empty) 0 changesets"

subsection \<open>createchangeset: the merge patterns\<close>

text \<open>
  The result of \<^verbatim>\<open>pattern.search(comment)\<close>: no match, or a match with its groups
  (\<^verbatim>\<open>m.groups()\<close>; a group that took no part in the match is None).  The arguments
  \<^verbatim>\<open>mergefrom\<close> and \<^verbatim>\<open>mergeto\<close> are None (the default pattern is used), an empty string
  (the step is switched off) or a pattern, which \<^verbatim>\<open>re.compile\<close> turns into a search
  function.
\<close>

datatype rematch = NoMatch | Groups "string option list"

datatype pattern_arg = PDefault | PEmpty | PPattern "string \<Rightarrow> rematch"

text \<open>
  \<^verbatim>\<open>[-\w]\<close> on code points below 256: \<^verbatim>\<open>\w\<close> in a str pattern is every alphanumeric
  character and the underscore.
\<close>

definition is_branch_char :: "char \<Rightarrow> bool" where
  "is_branch_char c =
     (let n = (of_char c :: nat)
      in c = CHR ''-'' \<or> c = CHR ''_''
         \<or> (48 \<le> n \<and> n \<le> 57) \<or> (65 \<le> n \<and> n \<le> 90) \<or> (97 \<le> n \<and> n \<le> 122)
         \<or> n = 170 \<or> n = 178 \<or> n = 179 \<or> n = 181 \<or> n = 185 \<or> n = 186
         \<or> (188 \<le> n \<and> n \<le> 190) \<or> (192 \<le> n \<and> n \<le> 214)
         \<or> (216 \<le> n \<and> n \<le> 246) \<or> 248 \<le> n)"

text \<open>
  \<^verbatim>\<open>re.compile(r'{{WORD ([-\w]+)}}').search(s)\<close> for a literal \<^verbatim>\<open>{{WORD \<close>: the leftmost
  position where the literal is followed by a name that is not empty and by \<^verbatim>\<open>}}\<close>.
\<close>

fun search_marker :: "string \<Rightarrow> string \<Rightarrow> rematch" where
  "search_marker lit [] = NoMatch"
| "search_marker lit (c # cs) =
     (case strip_prefix lit (c # cs) of
        None \<Rightarrow> search_marker lit cs
      | Some r \<Rightarrow>
          (let name = takeWhile is_branch_char r
           in if name \<noteq> [] \<and> take 2 (drop (length name) r) = ''}}''
              then Groups [Some name] else search_marker lit cs))"

definition default_mergeto :: "string \<Rightarrow> rematch" where
  "default_mergeto = search_marker ''{{mergetobranch ''"

definition default_mergefrom :: "string \<Rightarrow> rematch" where
  "default_mergefrom = search_marker ''{{mergefrombranch ''"

definition compile_arg :: "(string \<Rightarrow> rematch) \<Rightarrow> pattern_arg \<Rightarrow> (string \<Rightarrow> rematch) option" where
  "compile_arg dflt arg =
     (case arg of PDefault \<Rightarrow> Some dflt | PEmpty \<Rightarrow> None | PPattern re \<Rightarrow> Some re)"

subsection \<open>createchangeset: the parent walk\<close>

text \<open>
  The state of the walk: the store of changeset objects, the Python list
  \<^verbatim>\<open>changesets\<close> (references into the store) and the dict \<^verbatim>\<open>branches\<close> from a branch
  (None is the trunk) to an index of \<^verbatim>\<open>changesets\<close>.
\<close>

record wstate =
  heap :: "changeset list"
  changesets :: "nat list"
  branches :: "string option \<rightharpoonup> nat"

text \<open>\<^verbatim>\<open>changesets[k]\<close>, as the object it refers to.\<close>

definition cs_at :: "wstate \<Rightarrow> nat \<Rightarrow> changeset" where
  "cs_at st k = heap st ! (changesets st ! k)"

text \<open>\<^verbatim>\<open>c.parents.append(p)\<close> for the objects with the references \<open>c\<close> and \<open>p\<close>.\<close>

definition append_parent :: "nat \<Rightarrow> nat \<Rightarrow> changeset list \<Rightarrow> changeset list" where
  "append_parent c p h = h[c := (h ! c)\<lparr>c_parents := c_parents (h ! c) @ [p]\<rparr>]"

text \<open>\<^verbatim>\<open>c.branch not in changesets[candidate].branchpoints\<close>, negated; None is in no set of names.\<close>

definition in_branchpoints :: "string option \<Rightarrow> string set \<Rightarrow> bool" where
  "in_branchpoints b bps = (case b of None \<Rightarrow> False | Some name \<Rightarrow> name \<in> bps)"

text \<open>
  The search for the first changeset of a new branch:
  \<^verbatim>\<open>
  for candidate in range(i):
      if c.branch not in changesets[candidate].branchpoints:
          if p is not None: break
          continue
      p = candidate
  \<close>
  \<^verbatim>\<open>in\<close> raises TypeError when \<^verbatim>\<open>branchpoints\<close> is None (a merge changeset).
\<close>

fun find_branchpoint :: "wstate \<Rightarrow> string option \<Rightarrow> nat list \<Rightarrow> nat option \<Rightarrow> pyerr + nat option" where
  "find_branchpoint st b [] p = Inr p"
| "find_branchpoint st b (candidate # rest) p =
     (case c_branchpoints (cs_at st candidate) of
        None \<Rightarrow> Inl TypeError
      | Some bps \<Rightarrow>
          if \<not> in_branchpoints b bps
          then (if p \<noteq> None then Inr p else find_branchpoint st b rest p)
          else find_branchpoint st b rest (Some candidate))"

definition primary_parent :: "wstate \<Rightarrow> nat \<Rightarrow> pyerr + nat option" where
  "primary_parent st i =
     (case branches st (c_branch (cs_at st i)) of
        Some p \<Rightarrow> Inr (Some p)
      | None \<Rightarrow> find_branchpoint st (c_branch (cs_at st i)) [0..<i] None)"

text \<open>
  \<^verbatim>\<open>
  while p.synthetic:
      assert len(p.parents) <= 1
      if p.parents: p = p.parents[0]
      else: p = None; break
  \<close>
  The loop follows references through the store; that it ends is not visible in the
  loop itself, so not returning is the value \<open>None\<close> of the outer option.
\<close>

partial_function (option) skip_synthetic :: "changeset list \<Rightarrow> nat \<Rightarrow> (pyerr + nat option) option" where
  "skip_synthetic h p =
     (if c_synthetic (h ! p)
      then (if length (c_parents (h ! p)) > 1
            then Some (Inl (AssertionError ''synthetic changeset cannot have multiple parents''))
            else (case c_parents (h ! p) of
                    [] \<Rightarrow> Some (Inr None)
                  | q # _ \<Rightarrow> skip_synthetic h q))
      else Some (Inr (Some p)))"

declare skip_synthetic.simps [code]

text \<open>
  \<^verbatim>\<open>
  if c.mergepoint:
      if c.mergepoint == 'HEAD': c.mergepoint = None
      c.parents.append(changesets[branches[c.mergepoint]])
  \<close>
  \<open>cr\<close> is the reference of \<^verbatim>\<open>c\<close>.  A branch that is not in \<^verbatim>\<open>branches\<close> is a KeyError.
\<close>

definition add_mergepoint_parent :: "wstate \<Rightarrow> nat \<Rightarrow> pyerr + wstate" where
  "add_mergepoint_parent st cr =
     (case c_mergepoint (heap st ! cr) of
        None \<Rightarrow> Inr st
      | Some mp \<Rightarrow>
          if mp = [] then Inr st
          else
            (let st1 = (if mp = ''HEAD''
                        then st\<lparr>heap := (heap st)[cr := (heap st ! cr)\<lparr>c_mergepoint := None\<rparr>]\<rparr>
                        else st)
             in case branches st1 (c_mergepoint (heap st1 ! cr)) of
                  None \<Rightarrow> Inl KeyError
                | Some k \<Rightarrow>
                    if k < length (changesets st1)
                    then Inr (st1\<lparr>heap := append_parent cr (changesets st1 ! k) (heap st1)\<rparr>)
                    else Inl IndexError))"

text \<open>
  \<^verbatim>\<open>
  if mergefrom:
      m = mergefrom.search(c.comment)
      if m:
          m = m.group(1)
          if m == 'HEAD': m = None
          try: candidate = changesets[branches[m]]
          except KeyError: ui.warn(...)
          if m in branches and c.branch != m and not candidate.synthetic:
              c.parents.append(candidate)
  \<close>
  \<^verbatim>\<open>m.group(1)\<close> raises IndexError when the pattern has no group.  \<^verbatim>\<open>ui\<close> is an argument
  of \<^verbatim>\<open>createchangeset\<close>; its \<^verbatim>\<open>warn\<close> is taken to print and return, so the unknown branch
  leaves the state as it is (the class \<^verbatim>\<open>UI\<close> of \<^verbatim>\<open>main\<close> defines no \<^verbatim>\<open>warn\<close>: with it the
  call raises AttributeError).
\<close>

definition add_mergefrom_parent :: "(string \<Rightarrow> rematch) option \<Rightarrow> wstate \<Rightarrow> nat \<Rightarrow> pyerr + wstate" where
  "add_mergefrom_parent mergefrom st cr =
     (case mergefrom of
        None \<Rightarrow> Inr st
      | Some re \<Rightarrow>
          (case re (c_comment (heap st ! cr)) of
             NoMatch \<Rightarrow> Inr st
           | Groups [] \<Rightarrow> Inl IndexError
           | Groups (g # _) \<Rightarrow>
               (let m = (if g = Some ''HEAD'' then None else g)
                in case branches st m of
                     None \<Rightarrow> Inr st
                   | Some k \<Rightarrow>
                       if k < length (changesets st)
                       then (if c_branch (heap st ! cr) \<noteq> m \<and> \<not> c_synthetic (cs_at st k)
                             then Inr (st\<lparr>heap := append_parent cr (changesets st ! k) (heap st)\<rparr>)
                             else Inr st)
                       else Inl IndexError)))"

text \<open>
  \<^verbatim>\<open>
  if mergeto:
      m = mergeto.search(c.comment)
      if m:
          if m.groups():
              m = m.group(1)
              if m == 'HEAD': m = None
          else: m = None
          if m in branches and c.branch != m:
              cc = changeset.from_merge(c, changesets[branches[m]])
              changesets.insert(i + 1, cc)
              branches[m] = i + 1
              n += 1; i += 2
              continue
  \<close>
  The result says whether the merge changeset was inserted (the \<^verbatim>\<open>continue\<close> was taken).
  The new object gets the next free reference of the store.
\<close>

definition insert_merge :: "(string \<Rightarrow> rematch) option \<Rightarrow> wstate \<Rightarrow> nat \<Rightarrow> nat \<Rightarrow> pyerr + wstate \<times> bool" where
  "insert_merge mergeto st i cr =
     (case mergeto of
        None \<Rightarrow> Inr (st, False)
      | Some re \<Rightarrow>
          (case re (c_comment (heap st ! cr)) of
             NoMatch \<Rightarrow> Inr (st, False)
           | Groups gs \<Rightarrow>
               (let m = (case gs of [] \<Rightarrow> None | g # _ \<Rightarrow> if g = Some ''HEAD'' then None else g)
                in case branches st m of
                     None \<Rightarrow> Inr (st, False)
                   | Some k \<Rightarrow>
                       if c_branch (heap st ! cr) \<noteq> m
                       then (if k < length (changesets st)
                             then (let to_ref = changesets st ! k;
                                       cc = from_merge cr (heap st ! cr) to_ref (heap st ! to_ref);
                                       cc_ref = length (heap st)
                                   in Inr (st\<lparr>heap := heap st @ [cc],
                                              changesets := take (i + 1) (changesets st) @ [cc_ref]
                                                            @ drop (i + 1) (changesets st),
                                              branches := (branches st)(m \<mapsto> i + 1)\<rparr>,
                                           True))
                             else Inl IndexError)
                       else Inr (st, False))))"

text \<open>
  One turn of the loop up to the last two statements: the primary parent (with the walk
  over synthetic changesets), the mergepoint parent, the mergefrom parent and the
  mergeto step, in this order.
\<close>

definition add_primary_parent :: "wstate \<Rightarrow> nat \<Rightarrow> nat \<Rightarrow> (pyerr + wstate) option" where
  "add_primary_parent st i cr =
     (case primary_parent st i of
        Inl e \<Rightarrow> Some (Inl e)
      | Inr None \<Rightarrow> Some (Inr st)
      | Inr (Some p) \<Rightarrow>
          if p < length (changesets st)
          then (case skip_synthetic (heap st) (changesets st ! p) of
                  None \<Rightarrow> None
                | Some (Inl e) \<Rightarrow> Some (Inl e)
                | Some (Inr None) \<Rightarrow> Some (Inr st)
                | Some (Inr (Some q)) \<Rightarrow> Some (Inr (st\<lparr>heap := append_parent cr q (heap st)\<rparr>)))
          else Some (Inl IndexError))"

definition walk_body ::
  "(string \<Rightarrow> rematch) option \<Rightarrow> (string \<Rightarrow> rematch) option \<Rightarrow> nat \<Rightarrow> wstate
   \<Rightarrow> (pyerr + wstate \<times> bool) option" where
  "walk_body mergefrom mergeto i st =
     (if i < length (changesets st)
      then (let cr = changesets st ! i
            in case add_primary_parent st i cr of
                 None \<Rightarrow> None
               | Some (Inl e) \<Rightarrow> Some (Inl e)
               | Some (Inr st1) \<Rightarrow>
                   (case add_mergepoint_parent st1 cr of
                      Inl e \<Rightarrow> Some (Inl e)
                    | Inr st2 \<Rightarrow>
                        (case add_mergefrom_parent mergefrom st2 cr of
                           Inl e \<Rightarrow> Some (Inl e)
                         | Inr st3 \<Rightarrow> Some (insert_merge mergeto st3 i cr))))
      else Some (Inl IndexError))"

text \<open>
  The loop \<^verbatim>\<open>while i < n\<close>.  After an insertion the counters become \<^verbatim>\<open>i + 2\<close> and
  \<^verbatim>\<open>n + 1\<close> and the turn ends; otherwise \<^verbatim>\<open>branches[c.branch] = i\<close> and \<^verbatim>\<open>i += 1\<close>.
\<close>

function parent_walk ::
  "(string \<Rightarrow> rematch) option \<Rightarrow> (string \<Rightarrow> rematch) option \<Rightarrow> nat \<Rightarrow> nat \<Rightarrow> wstate
   \<Rightarrow> (pyerr + wstate) option" where
  "parent_walk mergefrom mergeto i n st =
     (if i < n
      then (case walk_body mergefrom mergeto i st of
              None \<Rightarrow> None
            | Some (Inl e) \<Rightarrow> Some (Inl e)
            | Some (Inr (st', inserted)) \<Rightarrow>
                if inserted then parent_walk mergefrom mergeto (i + 2) (n + 1) st'
                else parent_walk mergefrom mergeto (i + 1) n
                       (st'\<lparr>branches := (branches st')(c_branch (cs_at st' i) \<mapsto> i)\<rparr>))
      else Some (Inr st))"
  by pat_completeness auto
termination
  by (relation "measure (\<lambda>(mergefrom, mergeto, i, n, st). n - i)") auto

text \<open>The walk over all changesets, from an empty dict \<^verbatim>\<open>branches\<close>.\<close>

definition build_parents ::
  "(string \<Rightarrow> rematch) option \<Rightarrow> (string \<Rightarrow> rematch) option \<Rightarrow> changeset list
   \<Rightarrow> (pyerr + wstate) option" where
  "build_parents mergefrom mergeto cs =
     parent_walk mergefrom mergeto 0 (length cs)
       \<lparr>heap = cs, changesets = [0..<length cs], branches = Map.empty\<rparr>"

subsection \<open>createchangeset: dropping the synthetic changesets, numbering\<close>

text \<open>
  \<^verbatim>\<open>
  i = 0
  while i < len(changesets):
      if changesets[i].synthetic: del changesets[i]
      else: i += 1
  for i, c in enumerate(changesets): c.id = i + 1
  \<close>
\<close>

definition drop_synthetic :: "changeset list \<Rightarrow> nat list \<Rightarrow> nat list" where
  "drop_synthetic h refs = filter (\<lambda>r. \<not> c_synthetic (h ! r)) refs"

fun number_changesets :: "nat \<Rightarrow> nat list \<Rightarrow> changeset list \<Rightarrow> changeset list" where
  "number_changesets i [] h = h"
| "number_changesets i (r # refs) h =
     number_changesets (i + 1) refs (h[r := (h ! r)\<lparr>c_id := Some (i + 1)\<rparr>])"

subsection \<open>createchangeset\<close>

text \<open>
  \<open>sorted_changesets\<close> is the function up to the parent walk: the sort of the log, the
  grouping, the sort of the entries of each changeset, the sort of the changesets and
  the tags.  The result of \<open>createchangeset\<close> is the store together with the returned
  list of references; \<open>result_changesets\<close> reads the returned list as objects.  The
  outer option is \<open>None\<close> when the walk over synthetic parents does not return.
\<close>

definition sorted_changesets :: "logentry list \<Rightarrow> int \<Rightarrow> changeset list" where
  "sorted_changesets log fuzz =
     (let mindate = mindate_of log Map.empty;
          log1 = py_sort (log_lt mindate) log;
          cs1 = grouping fuzz log1 [];
          cs2 = map sort_entries cs1;
          cs3 = py_sort cs_lt cs2
      in collect_tags cs3)"

definition createchangeset ::
  "logentry list \<Rightarrow> int \<Rightarrow> pattern_arg \<Rightarrow> pattern_arg \<Rightarrow> (pyerr + changeset list \<times> nat list) option" where
  "createchangeset log fuzz mergefrom mergeto =
     (case build_parents (compile_arg default_mergefrom mergefrom)
             (compile_arg default_mergeto mergeto) (sorted_changesets log fuzz) of
        None \<Rightarrow> None
      | Some (Inl e) \<Rightarrow> Some (Inl e)
      | Some (Inr st) \<Rightarrow>
          (let refs = drop_synthetic (heap st) (changesets st)
           in Some (Inr (number_changesets 0 refs (heap st), refs))))"

definition result_changesets :: "changeset list \<times> nat list \<Rightarrow> changeset list" where
  "result_changesets res = map (\<lambda>r. fst res ! r) (snd res)"

text \<open>
  The changesets that a call returns (none when it raises), and for each of them the
  objects its \<^verbatim>\<open>parents\<close> refer to.
\<close>

definition returned_changesets :: "(pyerr + changeset list \<times> nat list) option \<Rightarrow> changeset list" where
  "returned_changesets r = (case r of Some (Inr res) \<Rightarrow> result_changesets res | _ \<Rightarrow> [])"

definition parent_objects :: "(pyerr + changeset list \<times> nat list) option \<Rightarrow> changeset list list" where
  "parent_objects r =
     (case r of
        Some (Inr res) \<Rightarrow> map (\<lambda>c. map (\<lambda>p. fst res ! p) (c_parents c)) (result_changesets res)
      | _ \<Rightarrow> [])"

text \<open>The dates of the entries of a changeset, each as \<^verbatim>\<open>unixtime + tz_offset\<close>, and their spread.\<close>

definition entry_dates :: "changeset \<Rightarrow> int list" where
  "entry_dates c = map (\<lambda>e. date_sum (e_date e)) (c_entries c)"

definition date_spread :: "changeset \<Rightarrow> int" where
  "date_spread c = Max (set (entry_dates c)) - Min (set (entry_dates c))"

subsection \<open>Invariants used in the proofs\<close>

text \<open>
  What the grouping loop keeps true of every changeset: it has entries, they all carry
  the commitid of the changeset, \<^verbatim>\<open>_files\<close> are their files, the date is the date of the
  entry added last, and without a commitid the files are distinct and each entry was
  added within \<open>fuzz\<close> of the one before it.
\<close>

definition grouped_ok :: "int \<Rightarrow> changeset \<Rightarrow> bool" where
  "grouped_ok fuzz c =
     (c_entries c \<noteq> []
      \<and> (\<forall>e \<in> set (c_entries c). e_commitid e = c_commitid c)
      \<and> c_files c = set (map e_file (c_entries c))
      \<and> c_date c = e_date (last (c_entries c))
      \<and> (c_commitid c = None \<longrightarrow>
           distinct (map e_file (c_entries c))
           \<and> successively (\<lambda>a b. a \<le> b \<and> b < a + fuzz) (entry_dates c)))"

text \<open>The part of it that does not depend on the order of the entries.\<close>

definition entries_ok :: "int \<Rightarrow> logentry list \<Rightarrow> bool" where
  "entries_ok fuzz es =
     ((\<forall>e \<in> set es. e_commitid e = None) \<longrightarrow>
        distinct (map e_file es)
        \<and> successively (\<lambda>a b. b - a < fuzz) (sort (map (\<lambda>e. date_sum (e_date e)) es)))"

text \<open>
  The parent walk changes no entry list: against the store \<open>h0\<close> it started from, every
  object of the store \<open>h\<close> has the entries it had, and the objects that were added have
  none.  Every reference of \<^verbatim>\<open>changesets\<close> points into the store.
\<close>

definition frame :: "changeset list \<Rightarrow> changeset list \<Rightarrow> bool" where
  "frame h0 h =
     (length h0 \<le> length h
      \<and> (\<forall>r < length h. c_entries (h ! r) = (if r < length h0 then c_entries (h0 ! r) else [])))"

definition walk_inv :: "changeset list \<Rightarrow> wstate \<Rightarrow> bool" where
  "walk_inv h0 st = (frame h0 (heap st) \<and> (\<forall>r \<in> set (changesets st). r < length (heap st)))"

subsection \<open>Example logs\<close>

text \<open>
  An entry as \<^verbatim>\<open>createlog\<close> returns it: file (the rcs name is the file with \<^verbatim>\<open>,v\<close>),
  revision, parent, branch, time (with offset 0) and comment; the author is alice.
\<close>

definition commit ::
  "string \<Rightarrow> int list \<Rightarrow> int list \<Rightarrow> string option \<Rightarrow> int \<Rightarrow> string \<Rightarrow> logentry" where
  "commit file revision parent branch time comment =
     (scaffold (file @ '',v'') file revision)
       \<lparr>e_parent := Some parent, e_author := ''alice'', e_branch := branch,
        e_comment := comment, e_date := (time, 0)\<rparr>"

text \<open>
  A trunk commit from which branch BR starts, the synthetic revision 1.1 of a file
  added on BR, and a commit on BR that CVSNT marks as merged from the trunk.
\<close>

definition log_synthetic_merge :: "logentry list" where
  "log_synthetic_merge =
    [(commit ''a'' [1, 1] [] None 10 ''init'')\<lparr>e_branchpoints := {''BR''}\<rparr>,
     (commit ''b'' [1, 1] [] None 20 ''file b was initially added on branch BR.'')
       \<lparr>e_synthetic := True\<rparr>,
     (commit ''a'' [1, 1, 2, 1] [1, 1] (Some ''BR'') 30 ''merge from head'')
       \<lparr>e_mergepoint := Some ''HEAD''\<rparr>]"

text \<open>A commit on BR whose message merges it to the trunk, and a later commit on BR.\<close>

definition log_mergeto_head :: "logentry list" where
  "log_mergeto_head =
    [(commit ''a'' [1, 1] [] None 10 ''init'')\<lparr>e_branchpoints := {''BR''}\<rparr>,
     commit ''a'' [1, 1, 2, 1] [1, 1] (Some ''BR'') 20 ''fix {{mergetobranch HEAD}}'',
     commit ''a'' [1, 1, 2, 2] [1, 1, 2, 1] (Some ''BR'') 30 ''more'']"

text \<open>A trunk commit whose message merges it to the branch BR.\<close>

definition log_mergeto_branch :: "logentry list" where
  "log_mergeto_branch =
    [(commit ''a'' [1, 1] [] None 10 ''init'')\<lparr>e_branchpoints := {''BR''}\<rparr>,
     commit ''a'' [1, 1, 2, 1] [1, 1] (Some ''BR'') 20 ''on branch'',
     commit ''a'' [1, 2] [1, 1] None 30 ''merged {{mergetobranch BR}}'']"

text \<open>Three files committed with one message, 50 seconds apart each.\<close>

definition log_slow_commit :: "logentry list" where
  "log_slow_commit =
    [commit ''a'' [1, 1] [] None 0 ''big commit'',
     commit ''b'' [1, 1] [] None 50 ''big commit'',
     commit ''c'' [1, 1] [] None 100 ''big commit'']"

text \<open>
  An import: the revisions 1.1 and 1.1.1.1 of one file carry the same commitid (the
  vendor tag is gone from the file, so neither has a branchpoint).
\<close>

definition log_import :: "logentry list" where
  "log_import =
    [(commit ''a'' [1, 1] [] None 10 ''import'')\<lparr>e_commitid := Some ''c1''\<rparr>,
     (commit ''a'' [1, 1, 1, 1] [1, 1] (Some ''VENDOR'') 10 ''import'')
       \<lparr>e_commitid := Some ''c1''\<rparr>]"

section \<open>Properties of parsedate\<close>

lemma validate_is_pair: "validate w off = Inr y \<Longrightarrow> is_pair y \<and> truthy y"
  by (auto simp: validate_def split: if_splits)

lemma parsedate_result_pair:
  assumes "parsedate sd x fs = Inr y"
  shows "is_pair y \<and> truthy y"
proof (cases "truthy x")
  case False
  with assms show ?thesis by (auto simp: parsedate_def)
next
  case True
  note tr = this
  show ?thesis
  proof (cases "is_pair x")
    case True
    with tr assms show ?thesis by (auto simp: parsedate_def)
  next
    case False
    with tr assms show ?thesis
      by (auto simp: parsedate_def Let_def
            split: pyval.splits option.splits sum.splits prod.splits
            dest: validate_is_pair)
  qed
qed

text \<open>
  C10.  A 2-tuple is returned as it is, whatever its components (no range check is
  applied); an empty (false) input gives \<open>(0, 0)\<close>; and \<^verbatim>\<open>parsedate\<close> is idempotent:
  whenever it returns a value, applying it again to that value returns the same value.
\<close>

theorem parsedate_idempotent:
  "parsedate sd (PTuple [a, b]) fs = Inr (PTuple [a, b])
   \<and> (\<not> truthy d \<longrightarrow> parsedate sd d fs = Inr (PTuple [PInt 0, PInt 0]))
   \<and> (parsedate sd x fs = Inr y \<longrightarrow> parsedate sd y fs' = Inr y)"
proof (intro conjI impI)
  show "parsedate sd (PTuple [a, b]) fs = Inr (PTuple [a, b])"
    by (simp add: parsedate_def)
  show "parsedate sd d fs = Inr (PTuple [PInt 0, PInt 0])" if "\<not> truthy d"
    using that by (simp add: parsedate_def)
  show "parsedate sd y fs' = Inr y" if "parsedate sd x fs = Inr y"
    using parsedate_result_pair [OF that] by (simp add: parsedate_def)
qed

theorem parsedate_idempotent_witness:
  "parsedate (\<lambda>d f. Inl ValueError) (PStr ''100 0'') [] = Inr (PTuple [PInt 100, PInt 0])
   \<and> parsedate (\<lambda>d f. Inl ValueError) (PTuple [PInt 100, PInt 0]) [] = Inr (PTuple [PInt 100, PInt 0])
   \<and> parsedate (\<lambda>d f. Inl ValueError) (PTuple [PInt 4294967296, PInt 99999]) []
       = Inr (PTuple [PInt 4294967296, PInt 99999])
   \<and> \<not> truthy (PStr []) \<and> parsedate (\<lambda>d f. Inl ValueError) (PStr []) [] = Inr (PTuple [PInt 0, PInt 0])"
proof -
  let ?sd = "\<lambda>(d::string) (f::string). (Inl ValueError :: pyerr + int \<times> int)"
  have h: "parsedate ?sd (PStr ''100 0'') [] = Inr (PTuple [PInt 100, PInt 0])"
    by code_simp
  have e: "\<not> truthy (PStr [])" by simp
  from parsedate_idempotent [of ?sd "PInt 4294967296" "PInt 99999" "[]" "PStr []"
      "PStr ''100 0''" "PTuple [PInt 100, PInt 0]" "[]"]
  show ?thesis using h e by blast
qed

text \<open>
  C9.  The claim expects \<^verbatim>\<open>Abort\<close> for a timestamp outside the signed 32-bit range, for
  an impossible time zone offset and for a string that no format accepts.  At each of
  the three \<^verbatim>\<open>raise Abort(_(...))\<close> statements the module-level name \<^verbatim>\<open>_\<close> is
  undefined in dateutil.py, so what leaves \<^verbatim>\<open>parsedate\<close> is NameError: the timestamp
  \<open>2147483648\<close>, the offset \<open>43201\<close> and a string that every format rejects all end
  in NameError, whatever \<^verbatim>\<open>strdate\<close> and the format list are in the first two cases.
\<close>

theorem parsedate_raises_nameerror:
  "parsedate sd (PStr ''2147483648 0'') fs = Inl (NameError ''_'')
   \<and> parsedate sd (PStr ''0 43201'') fs = Inl (NameError ''_'')
   \<and> parsedate (\<lambda>d f. Inl ValueError) (PStr ''yesterday'') [''%Y/%m/%d %H:%M:%S'']
       = Inl (NameError ''_'')"
  by code_simp

section \<open>Properties of the log parser\<close>

subsection \<open>State 0 and the CVS error lines\<close>

lemma strip_prefix_set: "strip_prefix p s = Some r \<Longrightarrow> set r \<subseteq> set s"
  by (auto simp: strip_prefix_def split: if_splits dest: in_set_dropD)

lemma dot_plus_nl_eol_no_newline: "newline \<notin> set s \<Longrightarrow> dot_plus_nl_eol s = None"
proof -
  assume a: "newline \<notin> set s"
  then have h: "dropWhile (\<lambda>c. c \<noteq> newline) s = []" by (induction s) auto
  show ?thesis by (simp only: dot_plus_nl_eol_def Let_def h) simp
qed

lemma re_02_no_newline: "newline \<notin> set s \<Longrightarrow> re_02 s = None"
  by (auto simp: re_02_def split: option.splits dest!: strip_prefix_set
        intro!: dot_plus_nl_eol_no_newline)

lemma strip_newline_no_newline: "from_readline raw \<Longrightarrow> newline \<notin> set (strip_newline raw)"
proof -
  assume a: "from_readline raw"
  then have ne: "raw \<noteq> []" and nb: "newline \<notin> set (butlast raw)"
    by (auto simp: from_readline_def)
  show ?thesis
  proof (cases "last raw = newline")
    case True
    with ne nb show ?thesis by (simp add: strip_newline_def)
  next
    case False
    have "butlast raw @ [last raw] = raw" using ne by simp
    then have "set raw = insert (last raw) (set (butlast raw))"
      by (metis Un_insert_right list.simps(15) set_append sup_bot.right_neutral empty_set)
    with False nb show ?thesis by (auto simp: strip_newline_def)
  qed
qed

text \<open>
  No line that the loop hands to state 0 matches \<^verbatim>\<open>re_02\<close>: the pattern needs the
  newline that the loop has just removed.
\<close>

lemma re_02_never_matches: "from_readline raw \<Longrightarrow> re_02 (strip_newline raw) = None"
  by (rule re_02_no_newline [OF strip_newline_no_newline])

text \<open>
  C6.  The claim expects LogError for every line that matches one of the four error
  patterns, as it arrives from the stream.  The line \<^verbatim>\<open>cvs server: cannot open /cvsroot\<close>
  (and likewise \<^verbatim>\<open>cvs log: warning\<close>) matches \<^verbatim>\<open>re_02\<close> as it arrives, with its newline,
  but state 0 sees it without the newline, where \<^verbatim>\<open>re_02\<close> fails: the line is dropped
  and no error is raised.  The sibling pattern \<^verbatim>\<open>re_01\<close> has no \<^verbatim>\<open>\n\<close> and does raise.
\<close>

theorem state0_server_error_dropped:
  "re_02 (''cvs server: cannot open /cvsroot'' @ [newline]) = Some ''cannot open /cvsroot''
   \<and> state0 (strip_newline (''cvs server: cannot open /cvsroot'' @ [newline])) = Inr None
   \<and> state0 (strip_newline (''cvs log: warning'' @ [newline])) = Inr None
   \<and> state0 (strip_newline (''cvs [log aborted]: boom'' @ [newline])) = Inl (LogError ''boom'')"
  by code_simp

subsection \<open>The mergepoint field\<close>

lemma py_split_nosep: "sep \<notin> set w \<Longrightarrow> py_split sep w = [w]"
  by (induction w) auto

lemma py_split_append: "sep \<notin> set w \<Longrightarrow> py_split sep (w @ sep # rest) = w # py_split sep rest"
  by (induction w) auto

lemma py_split_join:
  "ws \<noteq> [] \<Longrightarrow> \<forall>w \<in> set ws. sep \<notin> set w \<Longrightarrow> py_split sep (py_join [sep] ws) = ws"
proof (induction "[sep]" ws rule: py_join.induct)
  case 1
  then show ?case by simp
next
  case (2 w)
  then show ?case by (simp add: py_split_nosep)
next
  case (3 w v va)
  then show ?case by (simp add: py_split_append)
qed

lemma magic_snoc: "magic_branch_revision (pre @ [x, y]) = py_join ''.'' (pre @ [''0'', x])"
  by (simp add: magic_branch_revision_def nth_append)

text \<open>
  C5, the claim as stated fails: for the mergepoint revision 1.1.2.3 and the branch map
  \<open>BR \<mapsto> 1.1.0.2\<close> the code answers \<open>BR\<close>, while the revision string of the claim,
  \<^verbatim>\<open>r[:-2] + [0, last]\<close>, is 1.1.0.3, which names no branch.
\<close>

theorem mergepoint_last_component_counterexample:
  "mergepoint_of [(''BR'', ''1.1.0.2'')] ''1.1.2.3'' = Inr ''BR''
   \<and> spec_mergepoint_of [(''BR'', ''1.1.0.2'')] ''1.1.2.3''
       = Inl (AssertionError ''unknown branch: None'')"
  by code_simp

text \<open>
  C5, amended.  For a mergepoint revision \<open>pre.x.y\<close>: when \<open>pre\<close> is empty (two
  components) the mergepoint is \<open>HEAD\<close>; otherwise the revision string looked up in the
  branch map is \<open>pre.0.x\<close>, built from the second-to-last component \<open>x\<close>, and the
  result is the one branch name mapped to it (an assertion fails when there is none or
  more than one).
\<close>

theorem mergepoint_of_second_to_last:
  assumes "\<forall>c \<in> set (pre @ [x, y]). CHR ''.'' \<notin> set c"
  shows "mergepoint_of branchmap (py_join ''.'' (pre @ [x, y])) =
     (if pre = [] then Inr ''HEAD''
      else (case branches_with_revision branchmap (py_join ''.'' (pre @ [''0'', x])) of
              [b] \<Rightarrow> Inr b
            | _ \<Rightarrow> Inl (AssertionError ''unknown branch: None'')))"
proof -
  have sp: "py_split CHR ''.'' (py_join ''.'' (pre @ [x, y])) = pre @ [x, y]"
    using assms by (intro py_split_join) auto
  show ?thesis
    unfolding mergepoint_of_def sp Let_def magic_snoc by (cases pre) auto
qed

theorem mergepoint_of_second_to_last_witness:
  "mergepoint_of [(''BR'', ''1.1.0.2'')] ''1.1.2.3'' = Inr ''BR''"
proof -
  have h: "\<forall>c \<in> set ([''1'', ''1''] @ [''2'', ''3'']). CHR ''.'' \<notin> set c" by simp
  have j: "py_join ''.'' ([''1'', ''1''] @ [''2'', ''3'']) = ''1.1.2.3''" by simp
  have k: "branches_with_revision [(''BR'', ''1.1.0.2'')]
             (py_join ''.'' ([''1'', ''1''] @ [''0'', ''2''])) = [''BR'']"
    by code_simp
  from mergepoint_of_second_to_last [OF h, of "[(''BR'', ''1.1.0.2'')]"]
  show ?thesis unfolding j k by simp
qed

subsection \<open>The parent pass\<close>

lemma recorded_empty: "recorded [] Map.empty"
  by (simp add: recorded_def)

lemma recorded_snoc:
  assumes "recorded earlier v"
  shows "recorded (earlier @ [e]) (v((e_rcs e, butlast (e_revision e)) \<mapsto> e_revision e))"
  unfolding recorded_def
proof
  fix x
  let ?k = "(e_rcs e, butlast (e_revision e))"
  show "(v(?k \<mapsto> e_revision e)) (e_rcs x, butlast (e_revision x)) =
        map_option e_revision (find (same_line x) (rev (earlier @ [e])))"
  proof (cases "same_line x e")
    case True
    then have "(e_rcs x, butlast (e_revision x)) = ?k" by (simp add: same_line_def)
    with True show ?thesis by simp
  next
    case False
    then have "(e_rcs x, butlast (e_revision x)) \<noteq> ?k" by (auto simp: same_line_def)
    with False assms show ?thesis by (auto simp: recorded_def)
  qed
qed

lemma recorded_lookup:
  assumes "recorded earlier v"
  shows "(case v (e_rcs e, butlast (e_revision e)) of
      None \<Rightarrow> butlast (butlast (e_revision e)) | Some p \<Rightarrow> p) = spec_parent earlier e"
proof -
  from assms have "v (e_rcs e, butlast (e_revision e)) =
      map_option e_revision (find (same_line e) (rev earlier))"
    unfolding recorded_def by blast
  then show ?thesis
    by (cases "find (same_line e) (rev earlier)") (simp_all add: spec_parent_def)
qed

lemma set_parents_spec:
  "recorded earlier v \<Longrightarrow>
   length (set_parents es v) = length es \<and>
   (\<forall>k < length es. set_parents es v ! k =
      (es ! k)\<lparr>e_parent := Some (spec_parent (earlier @ take k es) (es ! k))\<rparr>)"
proof (induction es arbitrary: earlier v)
  case Nil
  then show ?case by simp
next
  case (Cons e es)
  let ?v = "v((e_rcs e, butlast (e_revision e)) \<mapsto> e_revision e)"
  have r: "recorded (earlier @ [e]) ?v" by (rule recorded_snoc [OF Cons.prems])
  note ih = Cons.IH [OF r]
  have hd: "(case v (e_rcs e, butlast (e_revision e)) of
      None \<Rightarrow> butlast (butlast (e_revision e)) | Some p \<Rightarrow> p) = spec_parent earlier e"
    by (rule recorded_lookup [OF Cons.prems])
  from ih have len: "length (set_parents es ?v) = length es" by blast
  show ?case
  proof (intro conjI allI impI)
    show "length (set_parents (e # es) v) = length (e # es)"
      by (simp add: Let_def len)
    fix k assume k: "k < length (e # es)"
    show "set_parents (e # es) v ! k =
      ((e # es) ! k)\<lparr>e_parent := Some (spec_parent (earlier @ take k (e # es)) ((e # es) ! k))\<rparr>"
    proof (cases k)
      case 0
      then show ?thesis using hd by (simp add: Let_def)
    next
      case (Suc j)
      with k have "j < length es" by simp
      with ih have "set_parents es ?v ! j =
         (es ! j)\<lparr>e_parent := Some (spec_parent ((earlier @ [e]) @ take j es) (es ! j))\<rparr>"
        by blast
      then show ?thesis unfolding Suc by (simp add: Let_def)
    qed
  qed
qed

lemma old_versions_recorded:
  "recorded earlier v \<Longrightarrow>
   recorded (earlier @ map (remap_rcs rcsmap) olds) (old_versions rcsmap olds v)"
proof (induction olds arbitrary: earlier v)
  case Nil
  then show ?case by simp
next
  case (Cons e olds)
  let ?e = "remap_rcs rcsmap e"
  have "recorded (earlier @ [?e]) (v((e_rcs ?e, butlast (e_revision ?e)) \<mapsto> e_revision ?e))"
    by (rule recorded_snoc [OF Cons.prems])
  from Cons.IH [OF this]
  have "recorded ((earlier @ [?e]) @ map (remap_rcs rcsmap) olds)
     (old_versions rcsmap olds (v((e_rcs ?e, butlast (e_revision ?e)) \<mapsto> e_revision ?e)))" .
  then show ?case by (simp only: old_versions.simps Let_def list.map append_assoc append.simps)
qed

lemma butlast2_empty: "butlast (butlast (xs :: 'a list)) = [] \<longleftrightarrow> length xs \<le> 2"
  unfolding length_0_conv [symmetric] length_butlast by arith

lemma find_Some_set: "find P xs = Some x \<Longrightarrow> x \<in> set xs \<and> P x"
  by (induction xs) (auto split: if_splits)

lemma spec_parent_empty_iff:
  assumes "\<forall>e' \<in> set earlier. 2 \<le> length (e_revision e')" and "2 \<le> length (e_revision e)"
  shows "spec_parent earlier e = [] \<longleftrightarrow>
     length (e_revision e) = 2 \<and> \<not> (\<exists>e' \<in> set earlier. same_line e e')"
proof (cases "find (same_line e) (rev earlier)")
  case None
  then have "\<not> (\<exists>e' \<in> set earlier. same_line e e')" by (auto simp: find_None_iff)
  with None assms(2) show ?thesis by (auto simp: spec_parent_def butlast2_empty)
next
  case (Some m)
  then have m: "m \<in> set earlier" "same_line e m"
    using find_Some_set [of "same_line e" "rev earlier" m] by auto
  with assms(1) have "2 \<le> length (e_revision m)" by blast
  then have "e_revision m \<noteq> []" by auto
  with Some m show ?thesis by (auto simp: spec_parent_def)
qed

text \<open>
  What the pass computes, for every log.  Let \<open>new\<close> be the new log sorted by
  (rcs, revision) and \<open>old\<close> the old log, sorted and with its rcs names remapped.  After
  the pass the entry at position \<open>k\<close> of the new log has as parent the revision of the
  last entry recorded before it (in \<open>old\<close>, then in \<open>new\<close> up to \<open>k\<close>) with the same
  rcs file and the same prefix \<^verbatim>\<open>revision[:-1]\<close>, and \<^verbatim>\<open>revision[:-2]\<close> when there is
  none.  When every revision has at least two components, the code leaves the empty
  tuple exactly at a revision of two components with no earlier recorded revision of the
  same rcs file and the same prefix: the test is on the prefix, not on the trunk.
\<close>

lemma find_parents_resolved:
  assumes "new = py_sort rcs_revision_lt log"
    and "old = map (remap_rcs rcsmap) (py_sort rcs_revision_lt oldlog)"
    and "out = find_parents rcsmap oldlog log"
    and "k < length new"
  shows "length out = length new
    \<and> out ! k = (new ! k)\<lparr>e_parent := Some (spec_parent (old @ take k new) (new ! k))\<rparr>
    \<and> ((\<forall>e \<in> set (old @ new). 2 \<le> length (e_revision e)) \<longrightarrow>
         (e_parent (out ! k) = Some [] \<longleftrightarrow>
            length (e_revision (new ! k)) = 2
            \<and> \<not> (\<exists>e' \<in> set (old @ take k new). same_line (new ! k) e')))"
proof -
  have r: "recorded old (old_versions rcsmap (py_sort rcs_revision_lt oldlog) Map.empty)"
    using old_versions_recorded [OF recorded_empty] assms(2) by simp
  from set_parents_spec [OF r, of new] assms(1,3,4)
  have len: "length out = length new"
    and nth: "out ! k = (new ! k)\<lparr>e_parent := Some (spec_parent (old @ take k new) (new ! k))\<rparr>"
    by (auto simp: find_parents_def)
  have "e_parent (out ! k) = Some [] \<longleftrightarrow>
       length (e_revision (new ! k)) = 2
       \<and> \<not> (\<exists>e' \<in> set (old @ take k new). same_line (new ! k) e')"
    if a: "\<forall>e \<in> set (old @ new). 2 \<le> length (e_revision e)"
  proof -
    have "set (take k new) \<subseteq> set new" by (rule set_take_subset)
    with a have 1: "\<forall>e' \<in> set (old @ take k new). 2 \<le> length (e_revision e')" by auto
    from a assms(4) have 2: "2 \<le> length (e_revision (new ! k))" by simp
    from spec_parent_empty_iff [OF 1 2] nth show ?thesis by simp
  qed
  with len nth show ?thesis by blast
qed

lemma find_parents_resolved_example:
  "0 < length (py_sort rcs_revision_lt log_a)
   \<and> map e_revision (py_sort rcs_revision_lt log_a) = [[1, 1], [1, 1, 2, 1], [1, 2]]
   \<and> map e_parent (find_parents Map.empty [] log_a) = [Some [], Some [1, 1], Some [1, 1]]
   \<and> length (find_parents Map.empty [] log_a) = length (py_sort rcs_revision_lt log_a)
   \<and> find_parents Map.empty [] log_a ! 0 =
       (py_sort rcs_revision_lt log_a ! 0)
         \<lparr>e_parent := Some (spec_parent
            (map (remap_rcs Map.empty) (py_sort rcs_revision_lt [])
               @ take 0 (py_sort rcs_revision_lt log_a))
            (py_sort rcs_revision_lt log_a ! 0))\<rparr>
   \<and> length (e_revision (py_sort rcs_revision_lt log_a ! 0)) = 2"
proof -
  have k: "0 < length (py_sort rcs_revision_lt log_a)" by code_simp
  have h: "\<forall>e \<in> set (map (remap_rcs Map.empty) (py_sort rcs_revision_lt [])
                  @ py_sort rcs_revision_lt log_a). 2 \<le> length (e_revision e)"
    by code_simp
  have s: "map e_revision (py_sort rcs_revision_lt log_a) = [[1, 1], [1, 1, 2, 1], [1, 2]]"
    by code_simp
  have p: "map e_parent (find_parents Map.empty [] log_a) = [Some [], Some [1, 1], Some [1, 1]]"
    by code_simp
  have p0: "e_parent (find_parents Map.empty [] log_a ! 0) = Some []"
    by code_simp
  from find_parents_resolved [OF refl refl refl k, of Map.empty "[]"]
  show ?thesis using k h s p p0 by blast
qed

text \<open>
  C7.  The claim expects the parent to be absent only for the very first trunk revision
  of a file, and the docstring of \<^verbatim>\<open>logentry\<close> calls \<^verbatim>\<open>parent\<close> the previous revision of
  the entry.  In a file whose trunk goes from 1.1 to 2.1, both revisions get the empty
  tuple as parent (printed as \<^verbatim>\<open>INITIAL\<close>): \<^verbatim>\<open>versions\<close> is keyed by \<^verbatim>\<open>revision[:-1]\<close>,
  which is \<open>(2,)\<close> for 2.1 and was never recorded, and \<^verbatim>\<open>revision[:-2]\<close> of a revision
  of two components is empty.  Revision 2.1 is not the first trunk revision of the file:
  1.1 precedes it on the trunk, and is its previous revision.
\<close>

theorem trunk_successor_parent_absent:
  "map e_revision (py_sort rcs_revision_lt log_major) = [[1, 1], [2, 1]]
   \<and> map e_parent (find_parents Map.empty [] log_major) = [Some [], Some []]
   \<and> spec_parent (take 1 (py_sort rcs_revision_lt log_major))
        (py_sort rcs_revision_lt log_major ! 1) = []
   \<and> \<not> spec_first_trunk_revision (take 1 (py_sort rcs_revision_lt log_major))
         (py_sort rcs_revision_lt log_major ! 1)"
  by code_simp

section \<open>Properties of createchangeset\<close>

subsection \<open>The grouping\<close>

lemma from_logentry_ok: "grouped_ok fuzz (from_logentry e)"
  by (simp add: grouped_ok_def from_logentry_def cs_add_def new_changeset_def entry_dates_def)

lemma add_entry_ok:
  assumes "grouped_ok fuzz c" and "add_entry c e fuzz = Some c'"
  shows "grouped_ok fuzz c'"
proof -
  from assms(2) have cov: "can_cover c e fuzz" and c': "c' = cs_add c e"
    by (auto simp: add_entry_def split: if_splits)
  from assms(1) have ne: "c_entries c \<noteq> []"
    and cid: "\<forall>x \<in> set (c_entries c). e_commitid x = c_commitid c"
    and files: "c_files c = set (map e_file (c_entries c))"
    and dt: "c_date c = e_date (last (c_entries c))"
    by (auto simp: grouped_ok_def)
  from cov have ecid: "e_commitid e = c_commitid c"
    by (auto simp: can_cover_def split: if_splits)
  have 1: "c_entries c' \<noteq> []" by (simp add: c' cs_add_def)
  have 2: "\<forall>x \<in> set (c_entries c'). e_commitid x = c_commitid c'"
    using cid ecid by (auto simp: c' cs_add_def)
  have 3: "c_files c' = set (map e_file (c_entries c'))"
    using files by (auto simp: c' cs_add_def)
  have 4: "c_date c' = e_date (last (c_entries c'))" by (simp add: c' cs_add_def)
  have 5: "distinct (map e_file (c_entries c'))
           \<and> successively (\<lambda>a b. a \<le> b \<and> b < a + fuzz) (entry_dates c')"
    if none: "c_commitid c' = None"
  proof -
    from none have n: "c_commitid c = None" by (simp add: c' cs_add_def)
    with assms(1) have d: "distinct (map e_file (c_entries c))"
      and s: "successively (\<lambda>a b. a \<le> b \<and> b < a + fuzz) (entry_dates c)"
      by (auto simp: grouped_ok_def)
    from cov n have nf: "e_file e \<notin> c_files c"
      and lo: "date_sum (c_date c) \<le> date_sum (e_date e)"
      and hi: "date_sum (e_date e) < date_sum (c_date c) + fuzz"
      by (auto simp: can_cover_def split: if_splits)
    have l: "last (entry_dates c) = date_sum (c_date c)"
      using ne dt by (simp add: entry_dates_def last_map)
    have "entry_dates c' = entry_dates c @ [date_sum (e_date e)]"
      by (simp add: c' cs_add_def entry_dates_def)
    moreover have "entry_dates c \<noteq> []" using ne by (simp add: entry_dates_def)
    ultimately have "successively (\<lambda>a b. a \<le> b \<and> b < a + fuzz) (entry_dates c')"
      using s l lo hi by (simp add: successively_append_iff)
    moreover have "distinct (map e_file (c_entries c'))"
      using d nf files by (auto simp: c' cs_add_def)
    ultimately show ?thesis by blast
  qed
  from 1 2 3 4 5 show ?thesis unfolding grouped_ok_def by blast
qed

lemma grouping_ok:
  "\<forall>c \<in> set acc. grouped_ok fuzz c \<Longrightarrow> \<forall>c \<in> set (grouping fuzz es acc). grouped_ok fuzz c"
proof (induction es arbitrary: acc)
  case Nil
  then show ?case by simp
next
  case (Cons e es)
  show ?case
  proof (cases "acc = []")
    case True
    have "\<forall>c \<in> set [from_logentry e]. grouped_ok fuzz c" by (simp add: from_logentry_ok)
    from Cons.IH [OF this] True show ?thesis by simp
  next
    case False
    note ne = this
    show ?thesis
    proof (cases "add_entry (last acc) e fuzz")
      case None
      have "\<forall>c \<in> set (acc @ [from_logentry e]). grouped_ok fuzz c"
        using Cons.prems by (simp add: from_logentry_ok)
      from Cons.IH [OF this] ne None show ?thesis by simp
    next
      case (Some c')
      have "last acc \<in> set acc" using ne by simp
      with Cons.prems have "grouped_ok fuzz (last acc)" by blast
      from add_entry_ok [OF this Some] have "grouped_ok fuzz c'" .
      moreover have "set (butlast acc) \<subseteq> set acc" by (auto dest: in_set_butlastD)
      ultimately have "\<forall>c \<in> set (butlast acc @ [c']). grouped_ok fuzz c"
        using Cons.prems by auto
      from Cons.IH [OF this] ne Some show ?thesis by simp
    qed
  qed
qed

lemma successively_le_sorted:
  "successively (\<lambda>a b. a \<le> b \<and> b < a + fuzz) (xs :: int list) \<Longrightarrow> sorted xs"
proof -
  assume "successively (\<lambda>a b. a \<le> b \<and> b < a + fuzz) xs"
  then have "successively (\<le>) xs" by (rule successively_mono) auto
  then show ?thesis by (simp add: successively_conv_sorted_wrt)
qed

lemma grouped_entries_ok:
  assumes "grouped_ok fuzz c"
  shows "entries_ok fuzz (c_entries c)"
  unfolding entries_ok_def
proof
  assume a: "\<forall>e \<in> set (c_entries c). e_commitid e = None"
  from assms have ne: "c_entries c \<noteq> []"
    and cid: "\<forall>x \<in> set (c_entries c). e_commitid x = c_commitid c"
    by (auto simp: grouped_ok_def)
  from ne have "hd (c_entries c) \<in> set (c_entries c)" by simp
  with a cid have "c_commitid c = None" by metis
  with assms have d: "distinct (map e_file (c_entries c))"
    and s: "successively (\<lambda>a b. a \<le> b \<and> b < a + fuzz) (entry_dates c)"
    by (auto simp: grouped_ok_def)
  from s have "sorted (entry_dates c)" by (rule successively_le_sorted)
  then have "sort (entry_dates c) = entry_dates c" by (rule sorted_sort_id)
  moreover from s have "successively (\<lambda>a b. b - a < fuzz) (entry_dates c)"
    by (rule successively_mono) auto
  ultimately show "distinct (map e_file (c_entries c))
    \<and> successively (\<lambda>a b. b - a < fuzz) (sort (map (\<lambda>e. date_sum (e_date e)) (c_entries c)))"
    using d by (simp add: entry_dates_def)
qed

lemma entries_ok_mset:
  assumes "mset es' = mset es" and "entries_ok fuzz es"
  shows "entries_ok fuzz es'"
proof -
  let ?f = "\<lambda>e. date_sum (e_date e)"
  from assms(1) have st: "set es' = set es" by (rule mset_eq_setD)
  from assms(1) have "mset (map e_file es') = mset (map e_file es)" by simp
  then have di: "distinct (map e_file es') = distinct (map e_file es)"
    by (rule mset_eq_imp_distinct_iff)
  from assms(1) have "mset (sort (map ?f es)) = mset (map ?f es')" by simp
  then have "sort (map ?f es') = sort (map ?f es)"
    by (intro properties_for_sort) simp_all
  with st di assms(2) show ?thesis by (simp add: entries_ok_def)
qed

lemma mset_insort_lt: "mset (insort_lt lt x xs) = add_mset x (mset xs)"
  by (induction xs) auto

lemma mset_foldl_insort:
  "mset (foldl (\<lambda>acc x. insort_lt lt x acc) acc xs) = mset acc + mset xs"
  by (induction xs arbitrary: acc) (auto simp: mset_insort_lt)

lemma mset_py_sort: "mset (py_sort lt xs) = mset xs"
  by (simp add: py_sort_def mset_foldl_insort)

lemma set_py_sort: "set (py_sort lt xs) = set xs"
  using mset_py_sort [of lt xs] by (rule mset_eq_setD)

lemma sort_entries_ok: "grouped_ok fuzz c \<Longrightarrow> entries_ok fuzz (c_entries (sort_entries c))"
  by (auto simp: sort_entries_def intro: entries_ok_mset [OF mset_py_sort grouped_entries_ok])

lemma assign_tags_entries: "map c_entries (assign_tags g i cs) = map c_entries cs"
  by (induction cs arbitrary: i) auto

lemma collect_tags_entries: "map c_entries (collect_tags cs) = map c_entries cs"
  by (simp add: collect_tags_def assign_tags_entries)

subsection \<open>The parent walk keeps the entries\<close>

lemma frame_refl: "frame h h"
  by (simp add: frame_def)

lemma entries_update_same:
  "c_entries x = c_entries (h ! r) \<Longrightarrow> c_entries (h[r := x] ! k) = c_entries (h ! k)"
proof (cases "r < length h")
  case True
  assume "c_entries x = c_entries (h ! r)"
  with True show ?thesis by (cases "k = r") simp_all
next
  case False
  then have "h[r := x] = h" by (simp add: list_update_beyond)
  then show ?thesis by simp
qed

lemma frame_update:
  "frame h0 h \<Longrightarrow> c_entries x = c_entries (h ! r) \<Longrightarrow> frame h0 (h[r := x])"
  by (simp add: frame_def entries_update_same)

lemma frame_snoc: "frame h0 h \<Longrightarrow> c_entries x = [] \<Longrightarrow> frame h0 (h @ [x])"
  by (auto simp: frame_def nth_append)

lemma frame_append_parent: "frame h0 h \<Longrightarrow> frame h0 (append_parent c p h)"
  unfolding append_parent_def by (rule frame_update) simp_all

lemma walk_inv_heap:
  "walk_inv h0 st \<Longrightarrow> frame h0 h' \<Longrightarrow> length h' = length (heap st) \<Longrightarrow> walk_inv h0 (st\<lparr>heap := h'\<rparr>)"
  by (simp add: walk_inv_def)

lemma length_append_parent: "length (append_parent c p h) = length h"
  by (simp add: append_parent_def)

lemma walk_inv_append_parent:
  "walk_inv h0 st \<Longrightarrow> walk_inv h0 (st\<lparr>heap := append_parent c p (heap st)\<rparr>)"
  by (simp add: walk_inv_def frame_append_parent length_append_parent)

lemma add_primary_parent_inv:
  "walk_inv h0 st \<Longrightarrow> add_primary_parent st i cr = Some (Inr st') \<Longrightarrow> walk_inv h0 st'"
  by (auto simp: add_primary_parent_def walk_inv_append_parent
        split: sum.splits option.splits if_splits)

lemma add_mergepoint_parent_inv:
  assumes "walk_inv h0 st" and "add_mergepoint_parent st cr = Inr st'"
  shows "walk_inv h0 st'"
proof -
  let ?st1 = "st\<lparr>heap := (heap st)[cr := (heap st ! cr)\<lparr>c_mergepoint := None\<rparr>]\<rparr>"
  have "frame h0 ((heap st)[cr := (heap st ! cr)\<lparr>c_mergepoint := None\<rparr>])"
    using assms(1) by (intro frame_update) (simp_all add: walk_inv_def)
  with assms(1) have 1: "walk_inv h0 ?st1" by (simp add: walk_inv_def)
  from assms(2) have "st' = st \<or> (\<exists>p. st' = st\<lparr>heap := append_parent cr p (heap st)\<rparr>)
      \<or> (\<exists>p. st' = ?st1\<lparr>heap := append_parent cr p (heap ?st1)\<rparr>)"
    by (auto simp: add_mergepoint_parent_def Let_def split: option.splits if_splits)
  with assms(1) 1 show ?thesis
    using walk_inv_append_parent [of h0 st cr] walk_inv_append_parent [of h0 ?st1 cr] by auto
qed

lemma add_mergefrom_parent_inv:
  "walk_inv h0 st \<Longrightarrow> add_mergefrom_parent mf st cr = Inr st' \<Longrightarrow> walk_inv h0 st'"
  by (auto simp: add_mergefrom_parent_def Let_def walk_inv_append_parent
        split: option.splits rematch.splits list.splits if_splits)

lemma from_merge_entries: "c_entries (from_merge a x b y) = []"
  by (simp add: from_merge_def new_changeset_def)

lemma insert_merge_inv:
  assumes "walk_inv h0 st" and "insert_merge mt st i cr = Inr (st', ins)"
  shows "walk_inv h0 st'"
proof (cases "st' = st")
  case True
  with assms(1) show ?thesis by simp
next
  case False
  with assms(2) obtain m k where st': "st' = st\<lparr>heap := heap st @
           [from_merge cr (heap st ! cr) (changesets st ! k) (heap st ! (changesets st ! k))],
         changesets := take (i + 1) (changesets st) @ [length (heap st)]
                       @ drop (i + 1) (changesets st),
         branches := (branches st)(m \<mapsto> i + 1)\<rparr>"
    by (auto simp: insert_merge_def Let_def split: option.splits rematch.splits if_splits)
  from assms(1) have f: "frame h0 (heap st)"
    and r: "\<forall>r \<in> set (changesets st). r < length (heap st)"
    by (auto simp: walk_inv_def)
  have "frame h0 (heap st')" unfolding st' using f by (simp add: frame_snoc from_merge_entries)
  moreover have "\<forall>r \<in> set (changesets st'). r < length (heap st')"
  proof
    fix x assume "x \<in> set (changesets st')"
    then have "x \<in> set (take (i + 1) (changesets st)) \<or> x = length (heap st)
        \<or> x \<in> set (drop (i + 1) (changesets st))"
      by (auto simp: st')
    then have "x \<in> set (changesets st) \<or> x = length (heap st)"
      by (auto dest: in_set_takeD in_set_dropD)
    with r show "x < length (heap st')" by (auto simp: st')
  qed
  ultimately show ?thesis by (simp add: walk_inv_def)
qed

lemma walk_body_inv:
  assumes "walk_inv h0 st" and "walk_body mf mt i st = Some (Inr (st', ins))"
  shows "walk_inv h0 st'"
proof -
  from assms(2) obtain st1 st2 st3 where
    1: "add_primary_parent st i (changesets st ! i) = Some (Inr st1)"
    and 2: "add_mergepoint_parent st1 (changesets st ! i) = Inr st2"
    and 3: "add_mergefrom_parent mf st2 (changesets st ! i) = Inr st3"
    and 4: "insert_merge mt st3 i (changesets st ! i) = Inr (st', ins)"
    by (auto simp: walk_body_def Let_def split: if_splits option.splits sum.splits)
  from assms(1) 1 have "walk_inv h0 st1" by (rule add_primary_parent_inv)
  from this 2 have "walk_inv h0 st2" by (rule add_mergepoint_parent_inv)
  from this 3 have "walk_inv h0 st3" by (rule add_mergefrom_parent_inv)
  from this 4 show ?thesis by (rule insert_merge_inv)
qed

lemma walk_inv_branches: "walk_inv h0 st \<Longrightarrow> walk_inv h0 (st\<lparr>branches := b\<rparr>)"
  by (simp add: walk_inv_def)

lemma parent_walk_inv:
  "walk_inv h0 st \<Longrightarrow> parent_walk mf mt i n st = Some (Inr st') \<Longrightarrow> walk_inv h0 st'"
proof (induction mf mt i n st rule: parent_walk.induct)
  case (1 mf mt i n st)
  show ?case
  proof (cases "i < n")
    case False
    with "1.prems" show ?thesis by simp
  next
    case True
    note lt = this
    from "1.prems"(2) lt obtain st1 ins where wb: "walk_body mf mt i st = Some (Inr (st1, ins))"
      by (auto split: option.splits sum.splits)
    from "1.prems"(1) wb have inv1: "walk_inv h0 st1" by (rule walk_body_inv)
    show ?thesis
    proof (cases ins)
      case True
      with "1.prems"(2) lt wb have "parent_walk mf mt (i + 2) (n + 1) st1 = Some (Inr st')"
        by simp
      from "1.IH"(1) [OF lt wb refl refl True inv1 this] show ?thesis .
    next
      case False
      let ?st2 = "st1\<lparr>branches := (branches st1)(c_branch (cs_at st1 i) \<mapsto> i)\<rparr>"
      from False "1.prems"(2) lt wb have "parent_walk mf mt (i + 1) n ?st2 = Some (Inr st')"
        by simp
      from "1.IH"(2) [OF lt wb refl refl False walk_inv_branches [OF inv1] this] show ?thesis .
    qed
  qed
qed

lemma number_changesets_entries:
  "length (number_changesets i refs h) = length h
   \<and> (\<forall>r. c_entries (number_changesets i refs h ! r) = c_entries (h ! r))"
proof (induction refs arbitrary: i h)
  case Nil
  then show ?case by simp
next
  case (Cons a refs)
  have "c_entries (h[a := (h ! a)\<lparr>c_id := Some (i + 1)\<rparr>] ! r) = c_entries (h ! r)" for r
    by (rule entries_update_same) simp
  with Cons.IH [of "i + 1" "h[a := (h ! a)\<lparr>c_id := Some (i + 1)\<rparr>]"] show ?case by simp
qed

lemma sorted_changesets_ok:
  assumes "r < length (sorted_changesets log fuzz)"
  shows "entries_ok fuzz (c_entries (sorted_changesets log fuzz ! r))"
proof -
  define cs1 where "cs1 = grouping fuzz (py_sort (log_lt (mindate_of log Map.empty)) log) []"
  define cs3 where "cs3 = py_sort cs_lt (map sort_entries cs1)"
  have cs4: "sorted_changesets log fuzz = collect_tags cs3"
    by (simp add: sorted_changesets_def Let_def cs1_def cs3_def)
  have len: "length (collect_tags cs3) = length cs3"
    using collect_tags_entries [of cs3] by (metis length_map)
  from assms have r: "r < length cs3" by (simp add: cs4 len)
  have "c_entries (collect_tags cs3 ! r) = map c_entries (collect_tags cs3) ! r"
    using r len by simp
  also have "\<dots> = map c_entries cs3 ! r" by (simp add: collect_tags_entries)
  also have "\<dots> = c_entries (cs3 ! r)" using r by simp
  finally have e: "c_entries (sorted_changesets log fuzz ! r) = c_entries (cs3 ! r)"
    by (simp add: cs4)
  from r have "cs3 ! r \<in> set cs3" by simp
  then have "cs3 ! r \<in> set (map sort_entries cs1)" by (simp add: cs3_def set_py_sort)
  then obtain c1 where c1: "c1 \<in> set cs1" and s: "cs3 ! r = sort_entries c1" by auto
  have "\<forall>x \<in> set cs1. grouped_ok fuzz x" unfolding cs1_def by (rule grouping_ok) simp
  with c1 have "grouped_ok fuzz c1" by blast
  then have "entries_ok fuzz (c_entries (sort_entries c1))" by (rule sort_entries_ok)
  with e s show ?thesis by simp
qed

text \<open>
  Every changeset that \<^verbatim>\<open>createchangeset\<close> returns has the entries of a changeset of the
  grouping, or none (a merge changeset).
\<close>

lemma createchangeset_entries_ok:
  assumes "c \<in> set (returned_changesets (createchangeset log fuzz mergefrom mergeto))"
  shows "entries_ok fuzz (c_entries c)"
proof -
  let ?cs4 = "sorted_changesets log fuzz"
  from assms obtain res where cc: "createchangeset log fuzz mergefrom mergeto = Some (Inr res)"
    and cr: "c \<in> set (result_changesets res)"
    by (cases "createchangeset log fuzz mergefrom mergeto")
       (auto simp: returned_changesets_def split: sum.splits)
  from cc obtain st where
    bp: "build_parents (compile_arg default_mergefrom mergefrom)
           (compile_arg default_mergeto mergeto) ?cs4 = Some (Inr st)"
    and res: "res = (number_changesets 0 (drop_synthetic (heap st) (changesets st)) (heap st),
                     drop_synthetic (heap st) (changesets st))"
    by (auto simp: createchangeset_def Let_def split: option.splits sum.splits)
  have "walk_inv ?cs4 \<lparr>heap = ?cs4, changesets = [0..<length ?cs4], branches = Map.empty\<rparr>"
    by (simp add: walk_inv_def frame_refl)
  from parent_walk_inv [OF this bp [unfolded build_parents_def]]
  have fr: "frame ?cs4 (heap st)" and rf: "\<forall>r \<in> set (changesets st). r < length (heap st)"
    by (auto simp: walk_inv_def)
  from cr obtain r where r: "r \<in> set (changesets st)"
    and c: "c = number_changesets 0 (drop_synthetic (heap st) (changesets st)) (heap st) ! r"
    by (auto simp: res result_changesets_def drop_synthetic_def)
  from c have ce: "c_entries c = c_entries (heap st ! r)"
    using number_changesets_entries by simp
  from r rf have "r < length (heap st)" by blast
  with fr have ce2: "c_entries (heap st ! r) = (if r < length ?cs4 then c_entries (?cs4 ! r) else [])"
    by (simp add: frame_def)
  show ?thesis
  proof (cases "r < length ?cs4")
    case False
    with ce ce2 show ?thesis by (simp add: entries_ok_def)
  next
    case True
    from sorted_changesets_ok [OF True] ce ce2 True show ?thesis by simp
  qed
qed

text \<open>
  C2, the claim as stated fails: with \<open>fuzz = 60\<close>, three files committed with one
  message at the times 0, 50 and 100 end up in one changeset without commitid, each
  entry within 60 seconds of the one before it; the difference between the latest and
  the earliest date is 100, which is not below 60.
\<close>

theorem fuzz_bound_counterexample:
  "map (\<lambda>c. (map e_commitid (c_entries c), entry_dates c, date_spread c))
     (returned_changesets (createchangeset log_slow_commit 60 PDefault PDefault))
   = [([None, None, None], [0, 50, 100], 100)]
   \<and> \<not> date_spread (hd (returned_changesets (createchangeset log_slow_commit 60 PDefault PDefault))) < 60"
  by code_simp

text \<open>
  C2, amended.  In every changeset that \<^verbatim>\<open>createchangeset\<close> returns and whose entries
  carry no commitid, any two entries that are neighbours in the order of their dates
  (\<^verbatim>\<open>unixtime + tz_offset\<close>) are less than \<open>fuzz\<close> apart: the window moves with every
  entry that is taken in, because the date of the changeset becomes the date of that
  entry.
\<close>

theorem fuzz_bound_between_neighbours:
  assumes "c \<in> set (returned_changesets (createchangeset log fuzz mergefrom mergeto))"
    and "\<forall>e \<in> set (c_entries c). e_commitid e = None"
  shows "successively (\<lambda>a b. b - a < fuzz) (sort (entry_dates c))"
  using createchangeset_entries_ok [OF assms(1)] assms(2)
  by (simp add: entries_ok_def entry_dates_def)

theorem fuzz_bound_between_neighbours_witness:
  "entry_dates (returned_changesets (createchangeset log_slow_commit 60 PDefault PDefault) ! 0)
     = [0, 50, 100]
   \<and> successively (\<lambda>a b. b - a < 60)
       (sort (entry_dates
          (returned_changesets (createchangeset log_slow_commit 60 PDefault PDefault) ! 0)))"
proof -
  let ?out = "returned_changesets (createchangeset log_slow_commit 60 PDefault PDefault)"
  have l: "0 < length ?out" by code_simp
  have m: "?out ! 0 \<in> set ?out" using l by (rule nth_mem)
  have n: "\<forall>e \<in> set (c_entries (?out ! 0)). e_commitid e = None" by code_simp
  have d: "entry_dates (?out ! 0) = [0, 50, 100]" by code_simp
  from fuzz_bound_between_neighbours [OF m n] d show ?thesis by blast
qed

text \<open>
  C3, the claim as stated fails: the revisions 1.1 and 1.1.1.1 of one file with the same
  commitid are put into one changeset, which then holds the file twice.  With a commitid
  \<^verbatim>\<open>_can_cover\<close> compares nothing but the commitid (and the branchpoints).
\<close>

theorem same_file_counterexample:
  "map (\<lambda>c. (c_commitid c, map e_file (c_entries c), map e_revision (c_entries c)))
     (returned_changesets (createchangeset log_import 60 PDefault PDefault))
   = [(Some ''c1'', [''a'', ''a''], [[1, 1], [1, 1, 1, 1]])]
   \<and> \<not> distinct (map e_file (c_entries
         (hd (returned_changesets (createchangeset log_import 60 PDefault PDefault)))))"
  by code_simp

text \<open>
  C3, amended.  In every changeset that \<^verbatim>\<open>createchangeset\<close> returns and whose entries
  carry no commitid, no two entries refer to the same file path.
\<close>

theorem files_distinct_without_commitid:
  assumes "c \<in> set (returned_changesets (createchangeset log fuzz mergefrom mergeto))"
    and "\<forall>e \<in> set (c_entries c). e_commitid e = None"
  shows "distinct (map e_file (c_entries c))"
  using createchangeset_entries_ok [OF assms(1)] assms(2)
  by (simp add: entries_ok_def)

theorem files_distinct_without_commitid_witness:
  "map e_file (c_entries
     (returned_changesets (createchangeset log_slow_commit 60 PDefault PDefault) ! 0))
     = [''a'', ''b'', ''c'']
   \<and> distinct (map e_file (c_entries
       (returned_changesets (createchangeset log_slow_commit 60 PDefault PDefault) ! 0)))"
proof -
  let ?out = "returned_changesets (createchangeset log_slow_commit 60 PDefault PDefault)"
  have l: "0 < length ?out" by code_simp
  have m: "?out ! 0 \<in> set ?out" using l by (rule nth_mem)
  have n: "\<forall>e \<in> set (c_entries (?out ! 0)). e_commitid e = None" by code_simp
  have d: "map e_file (c_entries (?out ! 0)) = [''a'', ''b'', ''c'']" by code_simp
  from files_distinct_without_commitid [OF m n] d show ?thesis by blast
qed

text \<open>
  C1.  The claim expects that no returned changeset has a synthetic changeset among its
  parents.  A commit on a branch that carries the mergepoint \<open>HEAD\<close>, made while the
  latest trunk changeset is synthetic, gets that synthetic changeset as its second
  parent: \<^verbatim>\<open>c.parents.append(changesets[branches[c.mergepoint]])\<close> has no test of
  \<^verbatim>\<open>synthetic\<close>, unlike the primary parent and the mergefrom parent.  The changeset is
  then dropped from the list, so the parent is an object without id.
\<close>

theorem synthetic_mergepoint_parent:
  "map (\<lambda>c. (c_id c, c_synthetic c, c_comment c))
     (returned_changesets (createchangeset log_synthetic_merge 60 PDefault PDefault))
   = [(Some 1, False, ''init''), (Some 2, False, ''merge from head'')]
   \<and> map (map (\<lambda>p. (c_id p, c_synthetic p)))
       (parent_objects (createchangeset log_synthetic_merge 60 PDefault PDefault))
     = [[], [(Some 1, False), (None, True)]]"
  by code_simp

text \<open>
  C4.  The merge changeset is inserted right behind the merging changeset, with the two
  parents and the comment of \<^verbatim>\<open>from_merge\<close>; but for a merging changeset on the trunk,
  whose \<^verbatim>\<open>branch\<close> is None, the comment ends in \<^verbatim>\<open>None\<close>, where the claim (and the
  printing of a changeset, \<^verbatim>\<open>cs.branch or 'HEAD'\<close>) says \<open>HEAD\<close>.
\<close>

theorem merge_from_trunk_comment:
  "map (\<lambda>c. (c_id c, c_branch c, c_comment c))
     (returned_changesets (createchangeset log_mergeto_branch 60 PDefault PDefault))
   = [(Some 1, None, ''init''),
      (Some 2, Some ''BR'', ''on branch''),
      (Some 3, None, ''merged {{mergetobranch BR}}''),
      (Some 4, Some ''BR'', ''convert-repo: CVS merge from branch None'')]
   \<and> map (map c_id) (parent_objects (createchangeset log_mergeto_branch 60 PDefault PDefault))
     = [[], [Some 1], [Some 1], [Some 3, Some 2]]"
  by code_simp

text \<open>
  C8.  The claim expects \<^verbatim>\<open>branches[c.branch] = i\<close> after the turn of every changeset,
  also when a merge changeset was inserted.  In that case the \<^verbatim>\<open>continue\<close> leaves the
  turn before \<^verbatim>\<open>branches[c.branch] = i\<close>: after the walk over the first two changesets
  of the log, the second of which is on BR and is merged to the trunk, \<^verbatim>\<open>branches\<close> has
  no entry for BR (the claim says 1).  The next commit on BR therefore gets the trunk
  changeset as its parent, not its predecessor on BR.
\<close>

theorem mergeto_skips_branch_record:
  "map_option (map_sum id (\<lambda>st. (changesets st, branches st (Some ''BR''), branches st None)))
     (build_parents (Some default_mergefrom) (Some default_mergeto)
        (sorted_changesets (take 2 log_mergeto_head) 60))
   = Some (Inr ([0, 1, 2], None, Some 2))
   \<and> map (\<lambda>c. (c_id c, c_branch c, c_comment c))
       (returned_changesets (createchangeset log_mergeto_head 60 PDefault PDefault))
     = [(Some 1, None, ''init''),
        (Some 2, Some ''BR'', ''fix {{mergetobranch HEAD}}''),
        (Some 3, None, ''convert-repo: CVS merge from branch BR''),
        (Some 4, Some ''BR'', ''more'')]
   \<and> map (map c_id) (parent_objects (createchangeset log_mergeto_head 60 PDefault PDefault))
     = [[], [Some 1], [Some 2, Some 1], [Some 1]]"
  by code_simp

end
